theory Spec2Isabelle
  imports Main "HOL-Library.Word"
begin

section \<open>The byte buffer of src/code/buffer/buffer.cpp\<close>

text \<open>
  The class \<^verbatim>\<open>Buffer\<close> owns a \<^verbatim>\<open>std::vector<char> buffer_\<close> and two cursors
  \<^verbatim>\<open>readPos_\<close> and \<^verbatim>\<open>writePos_\<close>. Conventions of this embedding:

  \<^item> \<^verbatim>\<open>size_t\<close> is a 64-bit word (LP64 Linux, the platform of \<^verbatim>\<open>readv\<close>); \<open>+\<close> and \<open>-\<close>
    wrap around as in C++.
  \<^item> The vector is a \<open>char list\<close>; its size is at most \<open>max_size\<close>, and a request
    beyond that throws \<^verbatim>\<open>std::length_error\<close>. The allocator is taken to grant every
    request up to \<open>max_size\<close>.
  \<^item> A pointer into the vector is its offset from \<^verbatim>\<open>&buffer_[0]\<close>.
  \<^item> \<^verbatim>\<open>assert\<close> is active (no \<^verbatim>\<open>NDEBUG\<close>): a failed assertion is the error
    \<open>AssertionFailed\<close>. A memory access outside the vector, or outside the source
    array of a copy, is undefined behaviour in C++ and the error \<open>OutOfBounds\<close> here;
    a copy, read or write of no bytes accesses nothing and never fails.
  \<^item> A name cannot end in an underscore here: the private members \<^verbatim>\<open>buffer_\<close>,
    \<^verbatim>\<open>readPos_\<close>, \<^verbatim>\<open>writePos_\<close>, \<^verbatim>\<open>MakeSpace_\<close> and \<^verbatim>\<open>BeginPtr_\<close> are written with
    the suffix \<open>_m\<close>.
  \<^item> A void member function without any failing path is a function
    \<open>buffer \<Rightarrow> buffer\<close>; one that can throw or abort returns \<open>error + buffer\<close>.
\<close>

type_synonym size_t = "64 word"

datatype error = LengthError | AssertionFailed | OutOfBounds

text \<open>
  Modelled from the spec: the header \<^verbatim>\<open>buffer.h\<close> is not part of the sources. The spec's
  data model gives the three fields (storage, read cursor, write cursor); the cursors are
  taken as \<^verbatim>\<open>size_t\<close>, the type of every length that buffer.cpp computes from them.
\<close>

record buffer =
  buffer_m :: "char list"
  readPos_m :: size_t
  writePos_m :: size_t

subsection \<open>The vector operations that the class uses\<close>

text \<open>\<^verbatim>\<open>std::vector<char>::max_size()\<close> on a 64-bit platform: \<^verbatim>\<open>PTRDIFF_MAX\<close>.\<close>

definition max_size :: nat where
  "max_size = 2 ^ 63 - 1"

text \<open>\<^verbatim>\<open>buffer_.size()\<close>, a \<^verbatim>\<open>size_t\<close>.\<close>

definition vector_size :: "char list \<Rightarrow> size_t" where
  "vector_size xs = of_nat (length xs)"

text \<open>
  \<^verbatim>\<open>buffer_.resize(n)\<close>: truncates, or appends value-initialised (zero) bytes; existing
  bytes stay where they are.
\<close>

definition resize :: "char list \<Rightarrow> size_t \<Rightarrow> error + char list" where
  "resize xs n =
     (if max_size < unat n then Inl LengthError
      else Inr (take (unat n) xs @ replicate (unat n - length xs) (CHR 0x00)))"

text \<open>
  \<^verbatim>\<open>std::copy(first, last, d_first)\<close> with all three pointers into the same vector: the
  forward loop \<^verbatim>\<open>while (first != last) *d_first++ = *first++;\<close> run \<open>last - first\<close>
  times, every read seeing the writes made before it.
\<close>

primrec copy_loop :: "nat \<Rightarrow> nat \<Rightarrow> nat \<Rightarrow> char list \<Rightarrow> char list" where
  "copy_loop 0 first d_first xs = xs"
| "copy_loop (Suc n) first d_first xs =
     copy_loop n (Suc first) (Suc d_first) (xs[d_first := xs ! first])"

definition std_copy :: "char list \<Rightarrow> nat \<Rightarrow> nat \<Rightarrow> nat \<Rightarrow> error + char list" where
  "std_copy xs first lst d_first =
     (if first = lst \<or>
         (first < lst \<and> lst \<le> length xs \<and> d_first + (lst - first) \<le> length xs)
      then Inr (copy_loop (lst - first) first d_first xs)
      else Inl OutOfBounds)"

text \<open>
  Writing bytes that come from outside the vector (the array \<^verbatim>\<open>str\<close> of \<^verbatim>\<open>Append\<close>, the
  kernel filling \<^verbatim>\<open>iov[0]\<close>) at offset \<open>off\<close>.
\<close>

definition store :: "char list \<Rightarrow> nat \<Rightarrow> char list \<Rightarrow> error + char list" where
  "store xs off bytes =
     (if bytes = [] \<or> off + length bytes \<le> length xs
      then Inr (take off xs @ bytes @ drop (off + length bytes) xs)
      else Inl OutOfBounds)"

subsection \<open>Construction and size queries\<close>

text \<open>
  \<^verbatim>\<open>Buffer::Buffer(int initBuffSize) : buffer_(initBuffSize), readPos_(0), writePos_(0)\<close>.
  The \<^verbatim>\<open>int\<close> is converted to \<^verbatim>\<open>size_t\<close> (sign extension), so a negative size asks for
  more than \<open>max_size\<close> bytes.
\<close>

definition Buffer :: "32 word \<Rightarrow> error + buffer" where
  "Buffer initBuffSize =
     (let n = (scast initBuffSize :: size_t) in
      if max_size < unat n then Inl LengthError
      else Inr \<lparr>buffer_m = replicate (unat n) (CHR 0x00), readPos_m = 0, writePos_m = 0\<rparr>)"

definition WritableBytes :: "buffer \<Rightarrow> size_t" where
  "WritableBytes b = vector_size (buffer_m b) - writePos_m b"

definition ReadableBytes :: "buffer \<Rightarrow> size_t" where
  "ReadableBytes b = writePos_m b - readPos_m b"

definition PrependableBytes :: "buffer \<Rightarrow> size_t" where
  "PrependableBytes b = readPos_m b"

text \<open>\<^verbatim>\<open>Peek\<close>, \<^verbatim>\<open>BeginWrite\<close> and \<^verbatim>\<open>BeginPtr_\<close> return pointers: offsets here.\<close>

definition Peek :: "buffer \<Rightarrow> size_t" where
  "Peek b = readPos_m b"

definition BeginWrite :: "buffer \<Rightarrow> size_t" where
  "BeginWrite b = writePos_m b"

definition BeginPtr_m :: "buffer \<Rightarrow> size_t" where
  "BeginPtr_m b = 0"

text \<open>Reading \<open>n\<close> bytes through the pointer that \<^verbatim>\<open>Peek\<close> returns.\<close>

definition peek_bytes :: "buffer \<Rightarrow> nat \<Rightarrow> error + char list" where
  "peek_bytes b n =
     (if n = 0 \<or> unat (Peek b) + n \<le> length (buffer_m b)
      then Inr (take n (drop (unat (Peek b)) (buffer_m b)))
      else Inl OutOfBounds)"

subsection \<open>Cursor movement\<close>

definition HasWritten :: "size_t \<Rightarrow> buffer \<Rightarrow> buffer" where
  "HasWritten len b = b\<lparr>writePos_m := writePos_m b + len\<rparr>"

definition Retrieve :: "size_t \<Rightarrow> buffer \<Rightarrow> buffer" where
  "Retrieve len b = b\<lparr>readPos_m := readPos_m b + len\<rparr>"

definition RetrieveUntil :: "size_t \<Rightarrow> buffer \<Rightarrow> error + buffer" where
  "RetrieveUntil end_ptr b =
     (if Peek b \<le> end_ptr then Inr (Retrieve (end_ptr - Peek b) b)
      else Inl AssertionFailed)"

definition RetrieveAll :: "buffer \<Rightarrow> buffer" where
  "RetrieveAll b =
     b\<lparr>buffer_m := replicate (length (buffer_m b)) (CHR 0x00), readPos_m := 0, writePos_m := 0\<rparr>"

definition RetrieveAllToStr :: "buffer \<Rightarrow> error + (char list \<times> buffer)" where
  "RetrieveAllToStr b =
     (case peek_bytes b (unat (ReadableBytes b)) of
        Inl e \<Rightarrow> Inl e
      | Inr str \<Rightarrow> Inr (str, RetrieveAll b))"

subsection \<open>Making room and appending\<close>

text \<open>
  \<^verbatim>\<open>MakeSpace_\<close>. The sum \<^verbatim>\<open>writePos_ + len + 1\<close> is computed in \<^verbatim>\<open>size_t\<close>.
\<close>

definition MakeSpace_m :: "size_t \<Rightarrow> buffer \<Rightarrow> error + buffer" where
  "MakeSpace_m len b =
     (if WritableBytes b + PrependableBytes b < len
      then (case resize (buffer_m b) (writePos_m b + len + 1) of
              Inl e \<Rightarrow> Inl e
            | Inr xs \<Rightarrow> Inr (b\<lparr>buffer_m := xs\<rparr>))
      else (let readable = ReadableBytes b in
            case std_copy (buffer_m b) (unat (BeginPtr_m b + readPos_m b))
                   (unat (BeginPtr_m b + writePos_m b)) (unat (BeginPtr_m b)) of
              Inl e \<Rightarrow> Inl e
            | Inr xs \<Rightarrow>
                (let b' = b\<lparr>buffer_m := xs, readPos_m := 0, writePos_m := readable\<rparr>
                 in if readable = ReadableBytes b' then Inr b' else Inl AssertionFailed)))"

definition EnsureWriteable :: "size_t \<Rightarrow> buffer \<Rightarrow> error + buffer" where
  "EnsureWriteable len b =
     (case (if WritableBytes b < len then MakeSpace_m len b else Inr b) of
        Inl e \<Rightarrow> Inl e
      | Inr b' \<Rightarrow> if len \<le> WritableBytes b' then Inr b' else Inl AssertionFailed)"

text \<open>
  \<^verbatim>\<open>Append(const char *str, size_t len)\<close>: \<open>str\<close> is the array that the pointer points to
  (so \<^verbatim>\<open>assert(str)\<close> holds), of which the first \<open>len\<close> bytes are read.
\<close>

definition Append :: "char list \<Rightarrow> size_t \<Rightarrow> buffer \<Rightarrow> error + buffer" where
  "Append str len b =
     (case EnsureWriteable len b of
        Inl e \<Rightarrow> Inl e
      | Inr b1 \<Rightarrow>
          if length str < unat len then Inl OutOfBounds
          else (case store (buffer_m b1) (unat (BeginWrite b1)) (take (unat len) str) of
                  Inl e \<Rightarrow> Inl e
                | Inr xs \<Rightarrow> Inr (HasWritten len (b1\<lparr>buffer_m := xs\<rparr>))))"

text \<open>\<^verbatim>\<open>Append(const std::string &str)\<close> and \<^verbatim>\<open>Append(const void *data, size_t len)\<close>.\<close>

definition Append_string :: "char list \<Rightarrow> buffer \<Rightarrow> error + buffer" where
  "Append_string str b = Append str (of_nat (length str)) b"

definition Append_void :: "char list \<Rightarrow> size_t \<Rightarrow> buffer \<Rightarrow> error + buffer" where
  "Append_void data len b = Append data len b"

text \<open>
  \<^verbatim>\<open>Append(const Buffer &buff)\<close> for a \<open>buff\<close> that is another object than the one
  appended to: \<^verbatim>\<open>buff.Peek()\<close> points at the rest of the other vector, which the call
  does not touch. The call \<^verbatim>\<open>b.Append(b)\<close> is not described by this definition: there the
  pointer goes into the vector of \<open>b\<close> itself, which \<^verbatim>\<open>EnsureWriteable\<close> may compact or
  reallocate before the copy reads through it.
\<close>

definition Append_Buffer :: "buffer \<Rightarrow> buffer \<Rightarrow> error + buffer" where
  "Append_Buffer buff b =
     Append (drop (unat (Peek buff)) (buffer_m buff)) (ReadableBytes buff) b"

subsection \<open>Transfer from and to a file descriptor\<close>

text \<open>
  The descriptor is the environment. For a read it either fails with an \<^verbatim>\<open>errno\<close> or
  has some bytes to deliver in this call; \<^verbatim>\<open>readv\<close> fills \<^verbatim>\<open>iov[0]\<close> and then
  \<^verbatim>\<open>iov[1]\<close> and returns the number of bytes it placed. For a write it either fails
  or accepts up to some number of bytes.
\<close>

datatype fd_read = ReadError int | Pending "char list"

datatype fd_write = WriteError int | Accepts nat

definition readv :: "char list \<Rightarrow> nat \<Rightarrow> nat \<Rightarrow> char list \<times> char list" where
  "readv avail iov_len0 iov_len1 = (take iov_len0 avail, take iov_len1 (drop iov_len0 avail))"

text \<open>\<^verbatim>\<open>char buff[65535]\<close>: \<^verbatim>\<open>sizeof(buff)\<close>.\<close>

definition sizeof_buff :: nat where
  "sizeof_buff = 65535"

text \<open>
  \<^verbatim>\<open>ReadFd\<close> returns the \<^verbatim>\<open>ssize_t\<close>, what it stored through \<^verbatim>\<open>Errno\<close> (if anything) and
  the buffer. Of the local array \<open>buff\<close> only the bytes that \<^verbatim>\<open>readv\<close> placed there are
  kept: \<^verbatim>\<open>Append\<close> reads exactly those (\<open>ReadFd_local\<close> below keeps the whole array,
  and \<open>ReadFd_local_eq\<close> shows that it returns the same).
\<close>

definition ReadFd :: "fd_read \<Rightarrow> buffer \<Rightarrow> error + (int \<times> int option \<times> buffer)" where
  "ReadFd fd b =
     (let writeable = WritableBytes b in
      case fd of
        ReadError e \<Rightarrow> Inr (- 1, Some e, b)
      | Pending avail \<Rightarrow>
          (let (part0, buff) = readv avail (unat writeable) sizeof_buff;
               len = length part0 + length buff
           in case store (buffer_m b) (unat (BeginWrite b)) part0 of
                Inl e \<Rightarrow> Inl e
              | Inr xs \<Rightarrow>
                  (let b1 = b\<lparr>buffer_m := xs\<rparr>
                   in if of_nat len \<le> writeable
                      then Inr (int len, None, b1\<lparr>writePos_m := writePos_m b1 + of_nat len\<rparr>)
                      else (case Append buff (of_nat len - writeable)
                                   (b1\<lparr>writePos_m := vector_size (buffer_m b1)\<rparr>) of
                              Inl e \<Rightarrow> Inl e
                            | Inr b2 \<Rightarrow> Inr (int len, None, b2)))))"

text \<open>
  The same function with the local array \<^verbatim>\<open>char buff[65535]\<close> written out in full. The
  array is not initialised: \<open>stack i\<close> is the byte that the stack holds at its \<open>i\<close>-th
  place when the call begins. \<^verbatim>\<open>readv\<close> gets \<^verbatim>\<open>sizeof(buff)\<close> as the length of
  \<^verbatim>\<open>iov[1]\<close> and overwrites the first bytes of the array; \<^verbatim>\<open>Append\<close> is given the whole
  array. The array is gone when the call returns: the result has no place for it.
\<close>

definition buff_array :: "(nat \<Rightarrow> char) \<Rightarrow> char list" where
  "buff_array stack = map stack [0..<sizeof_buff]"

definition ReadFd_local :: "(nat \<Rightarrow> char) \<Rightarrow> fd_read \<Rightarrow> buffer \<Rightarrow> error + (int \<times> int option \<times> buffer)" where
  "ReadFd_local stack fd b =
     (let buff0 = buff_array stack;
          writeable = WritableBytes b in
      case fd of
        ReadError e \<Rightarrow> Inr (- 1, Some e, b)
      | Pending avail \<Rightarrow>
          (let (part0, part1) = readv avail (unat writeable) (length buff0);
               buff = part1 @ drop (length part1) buff0;
               len = length part0 + length part1
           in case store (buffer_m b) (unat (BeginWrite b)) part0 of
                Inl e \<Rightarrow> Inl e
              | Inr xs \<Rightarrow>
                  (let b1 = b\<lparr>buffer_m := xs\<rparr>
                   in if of_nat len \<le> writeable
                      then Inr (int len, None, b1\<lparr>writePos_m := writePos_m b1 + of_nat len\<rparr>)
                      else (case Append buff (of_nat len - writeable)
                                   (b1\<lparr>writePos_m := vector_size (buffer_m b1)\<rparr>) of
                              Inl e \<Rightarrow> Inl e
                            | Inr b2 \<Rightarrow> Inr (int len, None, b2)))))"

text \<open>
  \<^verbatim>\<open>WriteFd\<close> returns the \<^verbatim>\<open>ssize_t\<close>, what it stored through \<^verbatim>\<open>Errno\<close>, the bytes that
  went to the descriptor, and the buffer.
\<close>

definition WriteFd :: "fd_write \<Rightarrow> buffer \<Rightarrow> error + (int \<times> int option \<times> char list \<times> buffer)" where
  "WriteFd fd b =
     (case fd of
        WriteError e \<Rightarrow> Inr (- 1, Some e, [], b)
      | Accepts k \<Rightarrow>
          (case peek_bytes b (unat (ReadableBytes b)) of
             Inl e \<Rightarrow> Inl e
           | Inr bytes \<Rightarrow>
               (let sent = take k bytes; len = length sent
                in Inr (int len, None, sent, Retrieve (of_nat len) b))))"

subsection \<open>The cursor invariant and the readable content\<close>

text \<open>
  \<open>0 \<le> readPos_m \<le> writePos_m \<le> size\<close>, the layout drawn at the top of buffer.cpp, together
  with the vector's own bound on its size.
\<close>

definition buffer_inv :: "buffer \<Rightarrow> bool" where
  "buffer_inv b \<longleftrightarrow>
     readPos_m b \<le> writePos_m b \<and> unat (writePos_m b) \<le> length (buffer_m b) \<and>
     length (buffer_m b) \<le> max_size"

text \<open>The bytes of the readable region, and reading them through \<^verbatim>\<open>Peek\<close>.\<close>

definition content :: "buffer \<Rightarrow> char list" where
  "content b = take (unat (ReadableBytes b)) (drop (unat (readPos_m b)) (buffer_m b))"

definition readable :: "buffer \<Rightarrow> error + char list" where
  "readable b = peek_bytes b (unat (ReadableBytes b))"

subsection \<open>Names for the states that the operations produce, and a state for the examples\<close>

text \<open>
  The buffer after the \<^verbatim>\<open>resize\<close> branch (when the sum does not wrap and the vector
  really grows) and after the compaction branch; the lemmas below show that
  \<open>MakeSpace_m\<close> returns them.
\<close>

definition grown :: "size_t \<Rightarrow> buffer \<Rightarrow> buffer" where
  "grown len b =
     b\<lparr>buffer_m := buffer_m b @
        replicate (unat (writePos_m b) + unat len + 1 - length (buffer_m b)) (CHR 0x00)\<rparr>"

definition compacted :: "buffer \<Rightarrow> buffer" where
  "compacted b =
     b\<lparr>buffer_m := content b @ drop (unat (ReadableBytes b)) (buffer_m b),
       readPos_m := 0, writePos_m := ReadableBytes b\<rparr>"

text \<open>Ten bytes of storage holding \<open>hello\<close>, of which the first \<open>r\<close> bytes are consumed.\<close>

definition hello_buffer :: "size_t \<Rightarrow> buffer" where
  "hello_buffer r = \<lparr>buffer_m = ''hello-----'', readPos_m = r, writePos_m = 5\<rparr>"

text \<open>
  The buffer after \<open>bytes\<close> were copied to the write cursor and the cursor was advanced
  past them: what \<^verbatim>\<open>std::copy\<close> followed by \<^verbatim>\<open>HasWritten\<close> leaves, and what \<^verbatim>\<open>readv\<close>
  followed by the cursor update of \<^verbatim>\<open>ReadFd\<close> leaves.
\<close>

definition written :: "char list \<Rightarrow> buffer \<Rightarrow> buffer" where
  "written bytes b =
     b\<lparr>buffer_m := take (unat (writePos_m b)) (buffer_m b) @ bytes @
                    drop (unat (writePos_m b) + length bytes) (buffer_m b),
       writePos_m := writePos_m b + of_nat (length bytes)\<rparr>"

section \<open>Auxiliary facts\<close>

subsection \<open>Arithmetic of \<open>size_t\<close> read as natural numbers\<close>

lemma max_size_less: "max_size < 2 ^ 64"
  by (simp add: max_size_def)

lemma unat_vector_size: "length xs \<le> max_size \<Longrightarrow> unat (vector_size xs) = length xs"
  unfolding vector_size_def using max_size_less
  by (simp add: unat_of_nat)

lemma buffer_inv_unat:
  assumes "buffer_inv b"
  shows "unat (readPos_m b) \<le> unat (writePos_m b)"
    and "unat (writePos_m b) \<le> length (buffer_m b)"
    and "length (buffer_m b) \<le> max_size"
  using assms by (simp_all add: buffer_inv_def word_le_nat_alt)

lemma unat_WritableBytes:
  assumes "buffer_inv b"
  shows "unat (WritableBytes b) = length (buffer_m b) - unat (writePos_m b)"
proof -
  have "writePos_m b \<le> vector_size (buffer_m b)"
    using buffer_inv_unat [OF assms] by (simp add: word_le_nat_alt unat_vector_size)
  then show ?thesis
    using buffer_inv_unat [OF assms] by (simp add: WritableBytes_def unat_sub unat_vector_size)
qed

lemma unat_ReadableBytes:
  assumes "buffer_inv b"
  shows "unat (ReadableBytes b) = unat (writePos_m b) - unat (readPos_m b)"
  using assms by (simp add: ReadableBytes_def buffer_inv_def unat_sub)

lemma copy_loop_length: "length (copy_loop n first d_first xs) = length xs"
  by (induction n arbitrary: first d_first xs) simp_all

lemma copy_loop_nth:
  "d_first \<le> first \<Longrightarrow> first + n \<le> length xs \<Longrightarrow> i < length xs \<Longrightarrow>
   copy_loop n first d_first xs ! i =
     (if d_first \<le> i \<and> i < d_first + n then xs ! (i - d_first + first) else xs ! i)"
proof (induction n arbitrary: first d_first xs)
  case 0
  then show ?case by auto
next
  case (Suc n)
  let ?ys = "xs[d_first := xs ! first]"
  have "copy_loop (Suc n) first d_first xs ! i = copy_loop n (Suc first) (Suc d_first) ?ys ! i"
    by simp
  also have "\<dots> = (if Suc d_first \<le> i \<and> i < Suc d_first + n
                     then ?ys ! (i - Suc d_first + Suc first) else ?ys ! i)"
    using Suc.prems by (intro Suc.IH) simp_all
  also have "\<dots> = (if d_first \<le> i \<and> i < d_first + Suc n then xs ! (i - d_first + first) else xs ! i)"
  proof (cases "Suc d_first \<le> i")
    case True
    then have "i - Suc d_first + Suc first = i - d_first + first"
      and "i - d_first + first \<noteq> d_first"
      using Suc.prems(1) by arith+
    with True show ?thesis by simp
  next
    case False
    then show ?thesis
      using Suc.prems by (cases "i = d_first") simp_all
  qed
  finally show ?case .
qed

lemma copy_loop_down:
  assumes "first + n \<le> length xs"
  shows "copy_loop n first 0 xs = take n (drop first xs) @ drop n xs"
proof (rule nth_equalityI)
  show "length (copy_loop n first 0 xs) = length (take n (drop first xs) @ drop n xs)"
    using assms by (simp add: copy_loop_length)
next
  fix i assume "i < length (copy_loop n first 0 xs)"
  then have i: "i < length xs" by (simp add: copy_loop_length)
  show "copy_loop n first 0 xs ! i = (take n (drop first xs) @ drop n xs) ! i"
    using assms i by (simp add: copy_loop_nth nth_append add.commute)
qed

lemma size_t_bound: "unat (x :: size_t) < 18446744073709551616"
  using unsigned_less [of x, where ?'a = nat] by simp

lemma unat_plus_size_t:
  "unat (x + y :: size_t) =
     (if unat x + unat y < 18446744073709551616 then unat x + unat y
      else unat x + unat y - 18446744073709551616)"
  using unat_plus_if' [of x y] by simp

lemma unat_minus_size_t:
  "unat (x - y :: size_t) =
     (if unat y \<le> unat x then unat x - unat y
      else unat x + 18446744073709551616 - unat y)"
  using unat_sub_if_size [of x y] by (simp add: word_size)

lemma unat_of_nat_size_t:
  "n < 18446744073709551616 \<Longrightarrow> unat (of_nat n :: size_t) = n"
  by (simp add: unat_of_nat)

lemma max_size_value: "max_size = 9223372036854775807"
  by (simp add: max_size_def)

subsection \<open>The readable content under the invariant\<close>

lemma length_content:
  assumes "buffer_inv b"
  shows "length (content b) = unat (ReadableBytes b)"
  using buffer_inv_unat [OF assms] by (simp add: content_def unat_ReadableBytes [OF assms])

lemma readable_content:
  assumes "buffer_inv b"
  shows "readable b = Inr (content b)"
  using buffer_inv_unat [OF assms]
  by (simp add: readable_def peek_bytes_def Peek_def content_def unat_ReadableBytes [OF assms])

subsection \<open>\<^verbatim>\<open>MakeSpace_\<close> and \<^verbatim>\<open>EnsureWriteable\<close>, case by case\<close>

lemma unat_Writable_plus_Prependable:
  assumes "buffer_inv b"
  shows "unat (WritableBytes b + PrependableBytes b) =
         length (buffer_m b) - unat (writePos_m b) + unat (readPos_m b)"
  using buffer_inv_unat [OF assms] max_size_value
  by (simp add: unat_plus_size_t unat_WritableBytes [OF assms] PrependableBytes_def)

lemma MakeSpace_grow:
  assumes "buffer_inv b" and "WritableBytes b + PrependableBytes b < len"
    and "unat (writePos_m b) + unat len + 1 \<le> max_size"
  shows "MakeSpace_m len b =
           Inr (b\<lparr>buffer_m := buffer_m b @
                  replicate (unat (writePos_m b) + unat len + 1 - length (buffer_m b)) (CHR 0x00)\<rparr>)"
    and "length (buffer_m b) < unat (writePos_m b) + unat len + 1"
proof -
  have n: "unat (writePos_m b + len + 1) = unat (writePos_m b) + unat len + 1"
    using assms(3) max_size_value by (simp add: unat_plus_size_t)
  have "length (buffer_m b) - unat (writePos_m b) + unat (readPos_m b) < unat len"
    using assms(2) by (simp add: word_less_nat_alt unat_Writable_plus_Prependable [OF assms(1)])
  then show less: "length (buffer_m b) < unat (writePos_m b) + unat len + 1"
    by arith
  show "MakeSpace_m len b =
           Inr (b\<lparr>buffer_m := buffer_m b @
                  replicate (unat (writePos_m b) + unat len + 1 - length (buffer_m b)) (CHR 0x00)\<rparr>)"
    using assms(2,3) less by (simp add: MakeSpace_m_def resize_def n)
qed

lemma MakeSpace_too_long:
  assumes "buffer_inv b" and "WritableBytes b + PrependableBytes b < len"
    and "max_size < unat (writePos_m b) + unat len + 1"
    and "unat (writePos_m b) + unat len + 1 < 18446744073709551616"
  shows "MakeSpace_m len b = Inl LengthError"
proof -
  have n: "unat (writePos_m b + len + 1) = unat (writePos_m b) + unat len + 1"
    using assms(4) by (simp add: unat_plus_size_t)
  show ?thesis
    using assms(2,3) by (simp add: MakeSpace_m_def resize_def n)
qed

lemma MakeSpace_compact:
  assumes "buffer_inv b" and "\<not> WritableBytes b + PrependableBytes b < len"
  shows "MakeSpace_m len b =
           Inr (b\<lparr>buffer_m := content b @ drop (unat (ReadableBytes b)) (buffer_m b),
                 readPos_m := 0, writePos_m := ReadableBytes b\<rparr>)"
proof -
  note inv = buffer_inv_unat [OF assms(1)]
  have "copy_loop (unat (writePos_m b) - unat (readPos_m b)) (unat (readPos_m b)) 0 (buffer_m b) =
        content b @ drop (unat (ReadableBytes b)) (buffer_m b)"
    using inv by (simp add: copy_loop_down content_def unat_ReadableBytes [OF assms(1)])
  moreover have "unat (readPos_m b) = unat (writePos_m b) \<or>
      (unat (readPos_m b) < unat (writePos_m b) \<and> unat (writePos_m b) \<le> length (buffer_m b) \<and>
       0 + (unat (writePos_m b) - unat (readPos_m b)) \<le> length (buffer_m b))"
    using inv by arith
  ultimately have "std_copy (buffer_m b) (unat (readPos_m b)) (unat (writePos_m b)) 0 =
      Inr (content b @ drop (unat (ReadableBytes b)) (buffer_m b))"
    by (simp only: std_copy_def if_True)
  then show ?thesis
    using assms(2)
    by (simp add: MakeSpace_m_def BeginPtr_m_def ReadableBytes_def)
qed

lemma grown_props:
  assumes "buffer_inv b" and "length (buffer_m b) < unat (writePos_m b) + unat len + 1"
    and "unat (writePos_m b) + unat len + 1 \<le> max_size"
  shows "buffer_inv (grown len b)"
    and "unat (WritableBytes (grown len b)) = unat len + 1"
    and "ReadableBytes (grown len b) = ReadableBytes b"
    and "content (grown len b) = content b"
proof -
  note inv = buffer_inv_unat [OF assms(1)]
  show g: "buffer_inv (grown len b)"
    using assms by (simp add: buffer_inv_def grown_def)
  show "unat (WritableBytes (grown len b)) = unat len + 1"
    using assms(2) by (simp add: unat_WritableBytes [OF g]) (simp add: grown_def)
  show "ReadableBytes (grown len b) = ReadableBytes b"
    by (simp add: ReadableBytes_def grown_def)
  show "content (grown len b) = content b"
    using inv by (simp add: content_def grown_def ReadableBytes_def unat_minus_size_t)
qed

lemma compacted_props:
  assumes "buffer_inv b"
  shows "buffer_inv (compacted b)"
    and "unat (WritableBytes (compacted b)) =
         length (buffer_m b) - unat (writePos_m b) + unat (readPos_m b)"
    and "ReadableBytes (compacted b) = ReadableBytes b"
    and "content (compacted b) = content b"
    and "length (buffer_m (compacted b)) = length (buffer_m b)"
proof -
  note inv = buffer_inv_unat [OF assms]
  note r = unat_ReadableBytes [OF assms]
  note l = length_content [OF assms]
  show len: "length (buffer_m (compacted b)) = length (buffer_m b)"
    using inv by (simp add: compacted_def l r)
  show c: "buffer_inv (compacted b)"
    using inv len by (simp add: buffer_inv_def) (simp add: compacted_def r)
  show "unat (WritableBytes (compacted b)) =
         length (buffer_m b) - unat (writePos_m b) + unat (readPos_m b)"
    using inv by (simp add: unat_WritableBytes [OF c] len) (simp add: compacted_def r)
  show "ReadableBytes (compacted b) = ReadableBytes b"
    by (simp add: ReadableBytes_def compacted_def)
  show "content (compacted b) = content b"
    using l by (simp add: content_def [of "compacted b"] ReadableBytes_def [of "compacted b"])
      (simp add: compacted_def)
qed

lemma EnsureWriteable_enough:
  "len \<le> WritableBytes b \<Longrightarrow> EnsureWriteable len b = Inr b"
  by (simp add: EnsureWriteable_def not_less [symmetric])

lemma EnsureWriteable_grow:
  assumes "buffer_inv b" and "WritableBytes b + PrependableBytes b < len"
    and "unat (writePos_m b) + unat len + 1 \<le> max_size"
  shows "EnsureWriteable len b = Inr (grown len b)"
proof -
  note inv = buffer_inv_unat [OF assms(1)]
  have "unat (WritableBytes b + PrependableBytes b) < unat len"
    using assms(2) by (simp add: word_less_nat_alt)
  then have w: "WritableBytes b < len"
    by (simp add: word_less_nat_alt unat_Writable_plus_Prependable [OF assms(1)]
        unat_WritableBytes [OF assms(1)])
  have "len \<le> WritableBytes (grown len b)"
    using grown_props(2) [OF assms(1) MakeSpace_grow(2) [OF assms] assms(3)]
    by (simp add: word_le_nat_alt)
  then show ?thesis
    using w MakeSpace_grow(1) [OF assms] by (simp add: EnsureWriteable_def grown_def)
qed

lemma EnsureWriteable_too_long:
  assumes "buffer_inv b" and "WritableBytes b + PrependableBytes b < len"
    and "max_size < unat (writePos_m b) + unat len + 1"
    and "unat (writePos_m b) + unat len + 1 < 18446744073709551616"
  shows "EnsureWriteable len b = Inl LengthError"
proof -
  have "unat (WritableBytes b + PrependableBytes b) < unat len"
    using assms(2) by (simp add: word_less_nat_alt)
  then have w: "WritableBytes b < len"
    by (simp add: word_less_nat_alt unat_Writable_plus_Prependable [OF assms(1)]
        unat_WritableBytes [OF assms(1)])
  then show ?thesis
    using MakeSpace_too_long [OF assms] by (simp add: EnsureWriteable_def)
qed

lemma EnsureWriteable_compact:
  assumes "buffer_inv b" and "WritableBytes b < len"
    and "\<not> WritableBytes b + PrependableBytes b < len"
  shows "EnsureWriteable len b = Inr (compacted b)"
proof -
  have "unat len \<le> unat (WritableBytes b + PrependableBytes b)"
    using assms(3) by (simp add: word_less_nat_alt)
  then have "len \<le> WritableBytes (compacted b)"
    by (simp add: word_le_nat_alt compacted_props(2) [OF assms(1)]
        unat_Writable_plus_Prependable [OF assms(1)])
  then show ?thesis
    using assms(2) MakeSpace_compact [OF assms(1,3)]
    by (simp add: EnsureWriteable_def compacted_def)
qed

lemma EnsureWriteable_Inr:
  assumes "buffer_inv b" and "unat (writePos_m b) + unat len + 1 < 2 ^ 64"
    and "EnsureWriteable len b = Inr b'"
  shows "buffer_inv b'" and "len \<le> WritableBytes b'"
    and "ReadableBytes b' = ReadableBytes b" and "content b' = content b"
    and "len \<le> WritableBytes b \<Longrightarrow> b' = b"
proof -
  have "buffer_inv b' \<and> len \<le> WritableBytes b' \<and> ReadableBytes b' = ReadableBytes b \<and>
        content b' = content b \<and> (len \<le> WritableBytes b \<longrightarrow> b' = b)"
  proof (cases "len \<le> WritableBytes b")
    case True
    then show ?thesis
      using assms(1,3) by (simp add: EnsureWriteable_enough)
  next
    case False
    then have w: "WritableBytes b < len" by simp
    have post: "len \<le> WritableBytes b'"
      using assms(3) by (auto simp: EnsureWriteable_def split: sum.splits if_splits)
    show ?thesis
    proof (cases "WritableBytes b + PrependableBytes b < len")
      case grow: True
      show ?thesis
      proof (cases "unat (writePos_m b) + unat len + 1 \<le> max_size")
        case True
        have "b' = grown len b"
          using EnsureWriteable_grow [OF assms(1) grow True] assms(3) by simp
        then show ?thesis
          using grown_props [OF assms(1) MakeSpace_grow(2) [OF assms(1) grow True] True]
            False post
          by simp
      next
        case False
        then have "EnsureWriteable len b = Inl LengthError"
          using EnsureWriteable_too_long [OF assms(1) grow] assms(2) by simp
        then show ?thesis using assms(3) by simp
      qed
    next
      case compact: False
      have "b' = compacted b"
        using EnsureWriteable_compact [OF assms(1) w compact] assms(3) by simp
      then show ?thesis
        using compacted_props [OF assms(1)] False post by simp
    qed
  qed
  then show "buffer_inv b'" and "len \<le> WritableBytes b'"
    and "ReadableBytes b' = ReadableBytes b" and "content b' = content b"
    and "len \<le> WritableBytes b \<Longrightarrow> b' = b"
    by simp_all
qed

lemma EnsureWriteable_Inl:
  assumes "buffer_inv b" and "unat (writePos_m b) + unat len + 1 < 2 ^ 64"
    and "EnsureWriteable len b = Inl e"
  shows "e = LengthError" and "max_size < unat (writePos_m b) + unat len + 1"
proof -
  have "len \<le> WritableBytes b \<or>
        (WritableBytes b + PrependableBytes b < len \<and>
           unat (writePos_m b) + unat len + 1 \<le> max_size) \<or>
        (WritableBytes b + PrependableBytes b < len \<and>
           max_size < unat (writePos_m b) + unat len + 1) \<or>
        (WritableBytes b < len \<and> \<not> WritableBytes b + PrependableBytes b < len)"
    by (meson not_less)
  then have "e = LengthError \<and> max_size < unat (writePos_m b) + unat len + 1"
    using assms EnsureWriteable_enough [of len b] EnsureWriteable_grow [of b len]
      EnsureWriteable_too_long [of b len] EnsureWriteable_compact [of b len]
    by auto
  then show "e = LengthError" and "max_size < unat (writePos_m b) + unat len + 1"
    by simp_all
qed

lemma EnsureWriteable_returns:
  assumes "buffer_inv b" and "unat (writePos_m b) + unat len + 1 \<le> max_size"
  shows "\<exists>b'. EnsureWriteable len b = Inr b'"
proof (cases "EnsureWriteable len b")
  case (Inl e)
  have "unat (writePos_m b) + unat len + 1 < 2 ^ 64"
    using assms(2) max_size_value by simp
  from EnsureWriteable_Inl(2) [OF assms(1) this Inl] assms(2) show ?thesis by simp
next
  case (Inr b')
  then show ?thesis by simp
qed

subsection \<open>Evaluation on the example state\<close>

lemma MakeSpace_m_grow_example:
  "MakeSpace_m 10 (hello_buffer 0) =
     Inr \<lparr>buffer_m = ''hello-----'' @ replicate 6 (CHR 0x00), readPos_m = 0, writePos_m = 5\<rparr>"
  by (simp add: hello_buffer_def MakeSpace_m_def WritableBytes_def PrependableBytes_def vector_size_def
      resize_def max_size_def)

lemma MakeSpace_m_compact_example:
  "MakeSpace_m 7 (hello_buffer 3) =
     Inr \<lparr>buffer_m = ''lollo-----'', readPos_m = 0, writePos_m = 2\<rparr>"
  by (simp add: hello_buffer_def MakeSpace_m_def WritableBytes_def PrependableBytes_def ReadableBytes_def
      vector_size_def std_copy_def BeginPtr_m_def copy_loop_down)

lemma EnsureWriteable_grow_example:
  "EnsureWriteable 10 (hello_buffer 0) =
     Inr \<lparr>buffer_m = ''hello-----'' @ replicate 6 (CHR 0x00), readPos_m = 0, writePos_m = 5\<rparr>"
  by (simp add: EnsureWriteable_def MakeSpace_m_grow_example)
    (simp add: hello_buffer_def WritableBytes_def vector_size_def)

subsection \<open>Appending\<close>

lemma written_props:
  assumes "buffer_inv b" and "unat (writePos_m b) + length bytes \<le> length (buffer_m b)"
  shows "buffer_inv (written bytes b)"
    and "content (written bytes b) = content b @ bytes"
    and "unat (writePos_m (written bytes b)) = unat (writePos_m b) + length bytes"
    and "length (buffer_m (written bytes b)) = length (buffer_m b)"
proof -
  note inv = buffer_inv_unat [OF assms(1)]
  have small: "length bytes < 18446744073709551616"
    using assms(2) inv(3) max_size_value by simp
  have w: "unat (writePos_m b + of_nat (length bytes)) = unat (writePos_m b) + length bytes"
    using assms(2) inv(3) max_size_value
    by (simp add: unat_plus_size_t unat_of_nat_size_t [OF small])
  show "unat (writePos_m (written bytes b)) = unat (writePos_m b) + length bytes"
    using w by (simp add: written_def)
  show len: "length (buffer_m (written bytes b)) = length (buffer_m b)"
    using assms(2) by (simp add: written_def)
  show i: "buffer_inv (written bytes b)"
    using inv assms(2) w len
    by (simp add: buffer_inv_def word_le_nat_alt) (simp add: written_def)
  have r: "unat (ReadableBytes (written bytes b)) =
           unat (writePos_m b) - unat (readPos_m b) + length bytes"
    using inv w by (simp add: unat_ReadableBytes [OF i]) (simp add: written_def)
  show "content (written bytes b) = content b @ bytes"
    using inv assms(2)
    by (simp add: content_def [of "written bytes b"] r)
      (simp add: written_def content_def unat_ReadableBytes [OF assms(1)] drop_take)
qed

lemma Append_written:
  assumes "EnsureWriteable len b = Inr b1" and "unat len \<le> length str"
    and "unat (writePos_m b1) + unat len \<le> length (buffer_m b1)"
  shows "Append str len b = Inr (written (take (unat len) str) b1)"
  using assms
  by (simp add: Append_def store_def BeginWrite_def HasWritten_def written_def min_absorb2)

lemma Append_Inr:
  assumes "buffer_inv b" and "unat len \<le> length str"
    and "unat (writePos_m b) + unat len + 1 < 2 ^ 64"
    and "Append str len b = Inr b'"
  shows "buffer_inv b'" and "content b' = content b @ take (unat len) str"
proof -
  obtain b1 where b1: "EnsureWriteable len b = Inr b1"
    using assms(4) by (cases "EnsureWriteable len b") (simp_all add: Append_def)
  note r = EnsureWriteable_Inr [OF assms(1,3) b1]
  have "unat len \<le> length (buffer_m b1) - unat (writePos_m b1)"
    using r(2) by (simp add: word_le_nat_alt unat_WritableBytes [OF r(1)])
  then have room: "unat (writePos_m b1) + unat len \<le> length (buffer_m b1)"
    using buffer_inv_unat(2) [OF r(1)] by arith
  have b': "b' = written (take (unat len) str) b1"
    using Append_written [OF b1 assms(2) room] assms(4) by simp
  have room': "unat (writePos_m b1) + length (take (unat len) str) \<le> length (buffer_m b1)"
    using room assms(2) by simp
  show "buffer_inv b'"
    using written_props(1) [OF r(1) room'] b' by simp
  show "content b' = content b @ take (unat len) str"
    using written_props(2) [OF r(1) room'] b' r(4) by simp
qed

lemma Append_Inl:
  assumes "buffer_inv b" and "unat len \<le> length str"
    and "unat (writePos_m b) + unat len + 1 < 2 ^ 64"
    and "Append str len b = Inl e"
  shows "e = LengthError" and "max_size < unat (writePos_m b) + unat len + 1"
proof -
  have "EnsureWriteable len b = Inl e"
  proof (cases "EnsureWriteable len b")
    case (Inl e')
    then show ?thesis using assms(4) by (simp add: Append_def)
  next
    case (Inr b1)
    note r = EnsureWriteable_Inr [OF assms(1,3) Inr]
    have "unat len \<le> length (buffer_m b1) - unat (writePos_m b1)"
      using r(2) by (simp add: word_le_nat_alt unat_WritableBytes [OF r(1)])
    then have "unat (writePos_m b1) + unat len \<le> length (buffer_m b1)"
      using buffer_inv_unat(2) [OF r(1)] by arith
    from Append_written [OF Inr assms(2) this] assms(4) show ?thesis by simp
  qed
  from EnsureWriteable_Inl [OF assms(1,3) this]
  show "e = LengthError" and "max_size < unat (writePos_m b) + unat len + 1"
    by simp_all
qed

lemma Append_compact_example:
  "Append ''world!!'' 7 (hello_buffer 3) =
     Inr \<lparr>buffer_m = ''loworld!!-'', readPos_m = 0, writePos_m = 9\<rparr>"
  by (simp add: Append_def EnsureWriteable_def MakeSpace_m_compact_example)
    (simp add: hello_buffer_def WritableBytes_def vector_size_def store_def BeginWrite_def
      HasWritten_def)

subsection \<open>The two branches of \<^verbatim>\<open>ReadFd\<close> after a successful \<^verbatim>\<open>readv\<close>\<close>

lemma writePos_plus_Writable:
  "writePos_m b + WritableBytes b = vector_size (buffer_m b)"
  by (simp add: WritableBytes_def)

lemma ReadFd_fits:
  assumes "buffer_inv b" and "length avail \<le> unat (WritableBytes b)"
  shows "ReadFd (Pending avail) b = Inr (int (length avail), None, written avail b)"
proof -
  note inv = buffer_inv_unat [OF assms(1)]
  have w: "unat (WritableBytes b) = length (buffer_m b) - unat (writePos_m b)"
    by (rule unat_WritableBytes [OF assms(1)])
  have small: "length avail < 18446744073709551616"
    using assms(2) size_t_bound [of "WritableBytes b"] by simp
  have le: "(of_nat (length avail) :: size_t) \<le> WritableBytes b"
    using assms(2) by (simp add: word_le_nat_alt unat_of_nat_size_t [OF small])
  have room: "unat (writePos_m b) + length avail \<le> length (buffer_m b)"
    using assms(2) inv w by simp
  show ?thesis
    using assms(2) le room
    by (simp add: ReadFd_def readv_def Let_def store_def BeginWrite_def written_def)
qed

lemma ReadFd_overflows:
  assumes "buffer_inv b" and "unat (WritableBytes b) < length avail"
    and "data = take (unat (WritableBytes b) + sizeof_buff) avail"
  shows "ReadFd (Pending avail) b =
           (case Append (drop (unat (WritableBytes b)) data)
                   (of_nat (length data) - WritableBytes b)
                   (written (take (unat (WritableBytes b)) data) b) of
              Inl e \<Rightarrow> Inl e
            | Inr b2 \<Rightarrow> Inr (int (length data), None, b2))"
proof -
  note inv = buffer_inv_unat [OF assms(1)]
  let ?w = "unat (WritableBytes b)"
  have w: "?w = length (buffer_m b) - unat (writePos_m b)"
    by (rule unat_WritableBytes [OF assms(1)])
  have s: "0 < sizeof_buff" by (simp add: sizeof_buff_def)
  define part0 where "part0 = take ?w avail"
  define buff where "buff = take sizeof_buff (drop ?w avail)"
  have rv: "readv avail ?w sizeof_buff = (part0, buff)"
    by (simp add: readv_def part0_def buff_def)
  have data: "data = part0 @ buff"
    by (simp add: part0_def buff_def assms(3) take_add)
  have l0: "length part0 = ?w"
    using assms(2) by (simp add: part0_def)
  have split: "take ?w data = part0" "drop ?w data = buff"
    using l0 by (simp_all add: data)
  have len: "length part0 + length buff = length data"
    by (simp add: data)
  have more: "?w < length data"
    using assms(2) s by (simp add: assms(3))
  have small: "length data < 18446744073709551616"
    using inv(3) w max_size_value by (simp add: assms(3) sizeof_buff_def)
  have nle: "\<not> (of_nat (length data) :: size_t) \<le> WritableBytes b"
    using more by (simp add: word_le_nat_alt unat_of_nat_size_t [OF small])
  have room: "unat (writePos_m b) + length part0 = length (buffer_m b)"
    using l0 inv w by simp
  have full: "writePos_m b + of_nat (length part0) = vector_size (buffer_m b)"
    using writePos_plus_Writable [of b] by (simp add: l0)
  have st: "store (buffer_m b) (unat (writePos_m b)) part0 = Inr (buffer_m (written part0 b))"
    using room by (simp add: store_def written_def)
  have vs: "vector_size (buffer_m (written part0 b)) = vector_size (buffer_m b)"
    using room by (simp add: vector_size_def written_def)
  have b1: "b\<lparr>buffer_m := buffer_m (written part0 b),
              writePos_m := vector_size (buffer_m b)\<rparr> = written part0 b"
    using full by (simp add: written_def)
  show ?thesis
    unfolding split ReadFd_def Let_def fd_read.case rv prod.case len
    by (simp add: BeginWrite_def st nle vs b1)
qed

lemma ReadFd_fits_example:
  "ReadFd (Pending ''abc'') (hello_buffer 0) =
     Inr (3, None, \<lparr>buffer_m = ''helloabc--'', readPos_m = 0, writePos_m = 8\<rparr>)"
  by (simp add: ReadFd_def readv_def hello_buffer_def WritableBytes_def vector_size_def
      store_def BeginWrite_def)

lemma Append_grow_example:
  "Append ''56789'' 5 \<lparr>buffer_m = ''hello01234'', readPos_m = 0, writePos_m = 10\<rparr> =
     Inr \<lparr>buffer_m = ''hello0123456789'' @ [CHR 0x00], readPos_m = 0, writePos_m = 15\<rparr>"
  by (simp add: Append_def EnsureWriteable_def MakeSpace_m_def WritableBytes_def
      PrependableBytes_def vector_size_def resize_def max_size_def store_def BeginWrite_def
      HasWritten_def)

lemma ReadFd_overflow_example:
  "ReadFd (Pending ''0123456789'') (hello_buffer 0) =
     Inr (10, None,
       \<lparr>buffer_m = ''hello0123456789'' @ [CHR 0x00], readPos_m = 0, writePos_m = 15\<rparr>)"
  by (simp add: ReadFd_def readv_def hello_buffer_def WritableBytes_def vector_size_def
      store_def BeginWrite_def sizeof_buff_def Append_grow_example [simplified])

subsection \<open>Retrieving and writing to a descriptor\<close>

lemma Retrieve_props:
  assumes "buffer_inv b" and "k \<le> unat (ReadableBytes b)"
  shows "buffer_inv (Retrieve (of_nat k) b)"
    and "unat (ReadableBytes (Retrieve (of_nat k) b)) = unat (ReadableBytes b) - k"
    and "content (Retrieve (of_nat k) b) = drop k (content b)"
proof -
  note inv = buffer_inv_unat [OF assms(1)]
  note r = unat_ReadableBytes [OF assms(1)]
  have small: "k < 18446744073709551616"
    using assms(2) size_t_bound [of "ReadableBytes b"] by simp
  have rp: "unat (readPos_m b + of_nat k) = unat (readPos_m b) + k"
    using assms(2) inv r size_t_bound [of "writePos_m b"]
    by (simp add: unat_plus_size_t unat_of_nat_size_t [OF small])
  show i: "buffer_inv (Retrieve (of_nat k) b)"
    using assms(2) inv r rp by (simp add: buffer_inv_def word_le_nat_alt Retrieve_def)
  show r': "unat (ReadableBytes (Retrieve (of_nat k) b)) = unat (ReadableBytes b) - k"
    using rp r by (simp add: unat_ReadableBytes [OF i]) (simp add: Retrieve_def)
  show "content (Retrieve (of_nat k) b) = drop k (content b)"
    using rp by (simp add: content_def [of "Retrieve (of_nat k) b"] r')
      (simp add: Retrieve_def content_def drop_take add.commute)
qed

lemma WriteFd_Accepts:
  assumes "buffer_inv b" and "k \<le> unat (ReadableBytes b)"
  shows "WriteFd (Accepts k) b = Inr (int k, None, take k (content b), Retrieve (of_nat k) b)"
proof -
  have "peek_bytes b (unat (ReadableBytes b)) = Inr (content b)"
    using readable_content [OF assms(1)] by (simp add: readable_def)
  then show ?thesis
    using assms(2) length_content [OF assms(1)]
    by (simp add: WriteFd_def Let_def min_absorb2)
qed

subsection \<open>The invariant, operation by operation\<close>

lemma Buffer_inv:
  assumes "Buffer initBuffSize = Inr b"
  shows "buffer_inv b"
  using assms by (auto simp: Buffer_def Let_def buffer_inv_def split: if_splits)

lemma HasWritten_inv:
  assumes "buffer_inv b" and "len \<le> WritableBytes b"
  shows "buffer_inv (HasWritten len b)"
proof -
  note inv = buffer_inv_unat [OF assms(1)]
  have "unat len \<le> length (buffer_m b) - unat (writePos_m b)"
    using assms(2) by (simp add: word_le_nat_alt unat_WritableBytes [OF assms(1)])
  then have "unat (writePos_m b + len) = unat (writePos_m b) + unat len"
    and "unat (writePos_m b) + unat len \<le> length (buffer_m b)"
    using inv max_size_value by (simp_all add: unat_plus_size_t)
  then show ?thesis
    using inv by (simp add: buffer_inv_def word_le_nat_alt HasWritten_def)
qed

lemma Retrieve_inv:
  assumes "buffer_inv b" and "len \<le> ReadableBytes b"
  shows "buffer_inv (Retrieve len b)"
proof -
  have "unat len \<le> unat (ReadableBytes b)"
    using assms(2) by (simp add: word_le_nat_alt)
  from Retrieve_props(1) [OF assms(1) this] show ?thesis by simp
qed

lemma RetrieveUntil_inv:
  assumes "buffer_inv b" and "end_ptr - Peek b \<le> ReadableBytes b"
    and "RetrieveUntil end_ptr b = Inr b'"
  shows "buffer_inv b'"
  using assms Retrieve_inv [OF assms(1,2)]
  by (auto simp: RetrieveUntil_def split: if_splits)

lemma RetrieveAll_inv:
  assumes "buffer_inv b"
  shows "buffer_inv (RetrieveAll b)"
  using assms by (simp add: buffer_inv_def RetrieveAll_def)

lemma RetrieveAllToStr_eq:
  assumes "buffer_inv b"
  shows "RetrieveAllToStr b = Inr (content b, RetrieveAll b)"
  using readable_content [OF assms] by (simp add: RetrieveAllToStr_def readable_def)

lemma Append_inv:
  assumes "buffer_inv b" and "unat len \<le> length str" and "length str \<le> max_size"
    and "Append str len b = Inr b'"
  shows "buffer_inv b'"
proof -
  have "unat (writePos_m b) + unat len + 1 < 2 ^ 64"
    using assms(2,3) buffer_inv_unat(2,3) [OF assms(1)] max_size_value by simp
  from Append_Inr(1) [OF assms(1,2) this assms(4)] show ?thesis .
qed

lemma Append_Buffer_inv:
  assumes "buffer_inv b" and "buffer_inv buff" and "Append_Buffer buff b = Inr b'"
  shows "buffer_inv b'"
proof -
  note o = buffer_inv_unat [OF assms(2)]
  have l: "unat (ReadableBytes buff) \<le> length (drop (unat (Peek buff)) (buffer_m buff))"
    using o by (simp add: unat_ReadableBytes [OF assms(2)] Peek_def)
  have m: "length (drop (unat (Peek buff)) (buffer_m buff)) \<le> max_size"
    using o by simp
  have "Append (drop (unat (Peek buff)) (buffer_m buff)) (ReadableBytes buff) b = Inr b'"
    using assms(3) by (simp add: Append_Buffer_def)
  from Append_inv [OF assms(1) l m this] show ?thesis .
qed

lemma ReadFd_inv:
  assumes "buffer_inv b" and "ReadFd fd b = Inr (n, eo, b')"
  shows "buffer_inv b'"
proof (cases fd)
  case (ReadError e)
  then show ?thesis using assms by (simp add: ReadFd_def)
next
  case (Pending avail)
  note inv = buffer_inv_unat [OF assms(1)]
  let ?w = "unat (WritableBytes b)"
  define data where "data = take (?w + sizeof_buff) avail"
  have w: "?w = length (buffer_m b) - unat (writePos_m b)"
    by (rule unat_WritableBytes [OF assms(1)])
  show ?thesis
  proof (cases "length avail \<le> ?w")
    case True
    then have "unat (writePos_m b) + length avail \<le> length (buffer_m b)"
      using inv w by simp
    from written_props(1) [OF assms(1) this] ReadFd_fits [OF assms(1) True] assms(2) Pending
    show ?thesis by simp
  next
    case False
    then have av: "?w < length avail" by simp
    then have more: "?w < length data" by (simp add: data_def sizeof_buff_def)
    let ?b1 = "written (take ?w data) b"
    let ?len = "of_nat (length data) - WritableBytes b :: size_t"
    have l0: "length (take ?w data) = ?w"
      using more by simp
    have room: "unat (writePos_m b) + length (take ?w data) \<le> length (buffer_m b)"
      using inv w by (simp only: l0) simp
    note p = written_props [OF assms(1) room]
    have small: "length data < 18446744073709551616"
      using inv(3) w max_size_value by (simp add: data_def sizeof_buff_def)
    have ulen: "unat ?len = length data - ?w"
      using more by (simp add: unat_minus_size_t unat_of_nat_size_t [OF small])
    have short: "length data - ?w \<le> sizeof_buff"
      by (simp add: data_def)
    have "unat (writePos_m ?b1) = unat (writePos_m b) + ?w"
      using p(3) l0 by simp
    then have wp1: "unat (writePos_m ?b1) = length (buffer_m b)"
      using inv w by simp
    have str: "unat ?len \<le> length (drop ?w data)"
      by (simp add: ulen)
    have nowrap: "unat (writePos_m ?b1) + unat ?len + 1 < 2 ^ 64"
      using short inv(3) max_size_value by (simp add: wp1 ulen sizeof_buff_def)
    have "Append (drop ?w data) ?len ?b1 = Inr b'"
      using ReadFd_overflows [OF assms(1) av data_def] assms(2) Pending
      by (simp split: sum.splits)
    from Append_Inr(1) [OF p(1) str nowrap this] show ?thesis .
  qed
qed

lemma WriteFd_inv:
  assumes "buffer_inv b" and "WriteFd fd b = Inr (n, eo, sent, b')"
  shows "buffer_inv b'"
proof (cases fd)
  case (WriteError e)
  then show ?thesis using assms by (simp add: WriteFd_def)
next
  case (Accepts k)
  let ?k = "min k (unat (ReadableBytes b))"
  have "peek_bytes b (unat (ReadableBytes b)) = Inr (content b)"
    using readable_content [OF assms(1)] by (simp add: readable_def)
  then have "b' = Retrieve (of_nat ?k) b"
    using assms(2) Accepts length_content [OF assms(1)]
    by (simp add: WriteFd_def Let_def min.commute)
  then show ?thesis
    using Retrieve_props(1) [OF assms(1), of ?k] by simp
qed

lemma Buffer_example:
  "Buffer 10 = Inr \<lparr>buffer_m = replicate 10 (CHR 0x00), readPos_m = 0, writePos_m = 0\<rparr>"
  by (simp add: Buffer_def max_size_def)

subsection \<open>The local array of \<^verbatim>\<open>ReadFd\<close>\<close>

lemma length_buff_array: "length (buff_array stack) = sizeof_buff"
  by (simp add: buff_array_def)

lemma Append_reads_prefix:
  assumes "unat len = length str"
  shows "Append (str @ rest) len b = Append str len b"
  using assms by (simp add: Append_def split: sum.splits)

lemma ReadFd_count:
  assumes "ReadFd (Pending avail) b = Inr (n, eo, b')"
  shows "n = int (min (length avail) (unat (WritableBytes b) + sizeof_buff))"
proof -
  have "length (take (unat (WritableBytes b)) avail) +
        length (take sizeof_buff (drop (unat (WritableBytes b)) avail)) =
        min (length avail) (unat (WritableBytes b) + sizeof_buff)"
    by simp
  then show ?thesis
    using assms
    by (auto simp: ReadFd_def readv_def Let_def split: sum.splits if_splits)
qed

lemma ReadFd_local_eq:
  "ReadFd_local stack fd b = ReadFd fd b"
proof (cases fd)
  case (ReadError e)
  then show ?thesis by (simp add: ReadFd_local_def ReadFd_def)
next
  case (Pending avail)
  let ?w = "unat (WritableBytes b)"
  define part0 where "part0 = take ?w avail"
  define part1 where "part1 = take sizeof_buff (drop ?w avail)"
  define rest where "rest = drop (length part1) (buff_array stack)"
  have rv: "readv avail ?w sizeof_buff = (part0, part1)"
    by (simp add: readv_def part0_def part1_def)
  have l1: "length part1 < 18446744073709551616"
    by (simp add: part1_def sizeof_buff_def)
  have a: "Append (part1 @ rest) (of_nat (length part0 + length part1) - WritableBytes b) b1 =
           Append part1 (of_nat (length part0 + length part1) - WritableBytes b) b1"
    if "\<not> (of_nat (length part0 + length part1) :: size_t) \<le> WritableBytes b" for b1
  proof -
    have "?w < length avail"
    proof (rule ccontr)
      assume "\<not> ?w < length avail"
      then have "part1 = []" and "length part0 \<le> ?w"
        by (simp_all add: part1_def part0_def)
      then have "(of_nat (length part0 + length part1) :: size_t) \<le> WritableBytes b"
        using size_t_bound [of "WritableBytes b"]
        by (simp add: word_le_nat_alt unat_of_nat_size_t)
      with that show False by simp
    qed
    then have "length part0 = ?w"
      by (simp add: part0_def)
    then have "(of_nat (length part0 + length part1) :: size_t) - WritableBytes b =
               of_nat (length part1)"
      by simp
    then have "unat ((of_nat (length part0 + length part1) :: size_t) - WritableBytes b) =
               length part1"
      by (simp add: unat_of_nat_size_t [OF l1])
    then show ?thesis by (rule Append_reads_prefix)
  qed
  show ?thesis
    unfolding Pending ReadFd_local_def ReadFd_def Let_def fd_read.case length_buff_array rv
      prod.case rest_def [symmetric]
    using a by (simp split: sum.splits)
qed

lemma ReadFd_65536_pending:
  "\<exists>b'. ReadFd (Pending (replicate 65536 (CHR ''a'')))
           \<lparr>buffer_m = [], readPos_m = 0, writePos_m = 0\<rparr> = Inr (65535, None, b')"
proof -
  let ?E = "\<lparr>buffer_m = [], readPos_m = 0, writePos_m = 0\<rparr>"
  let ?A = "replicate 65536 (CHR ''a'')"
  have inv: "buffer_inv ?E"
    by (simp add: buffer_inv_def)
  have w: "unat (WritableBytes ?E) = 0"
    by (simp add: WritableBytes_def vector_size_def)
  have av: "unat (WritableBytes ?E) < length ?A"
    by (simp add: w)
  define data where "data = take (unat (WritableBytes ?E) + sizeof_buff) ?A"
  have len: "length data = 65535"
    by (simp add: data_def w sizeof_buff_def)
  have wr: "written (take (unat (WritableBytes ?E)) data) ?E = ?E"
    by (simp add: w written_def)
  have ulen: "unat (of_nat (length data) - WritableBytes ?E :: size_t) = 65535"
    by (simp add: len WritableBytes_def vector_size_def)
  have str: "unat (of_nat (length data) - WritableBytes ?E :: size_t) \<le>
             length (drop (unat (WritableBytes ?E)) data)"
    by (simp only: ulen) (simp add: w len)
  have nowrap: "unat (writePos_m ?E) +
                unat (of_nat (length data) - WritableBytes ?E :: size_t) + 1 < 2 ^ 64"
    by (simp only: ulen) simp
  note rd = ReadFd_overflows [OF inv av data_def]
  show ?thesis
  proof (cases "Append (drop (unat (WritableBytes ?E)) data)
                  (of_nat (length data) - WritableBytes ?E) ?E")
    case (Inl e)
    from Append_Inl(2) [OF inv str nowrap Inl] show ?thesis
      by (simp only: ulen) (simp add: max_size_def)
  next
    case (Inr b2)
    then show ?thesis
      using rd by (simp add: wr len)
  qed
qed

section \<open>Retrieving more than is readable\<close>

lemma Retrieve_past_write:
  assumes "readPos_m b \<le> writePos_m b" and "ReadableBytes b < len"
  shows "\<not> (readPos_m b \<le> readPos_m b + len \<and> readPos_m b + len \<le> writePos_m b)"
proof -
  have "unat (readPos_m b) \<le> unat (writePos_m b)"
    and "unat (writePos_m b) - unat (readPos_m b) < unat len"
    using assms
    by (simp_all add: ReadableBytes_def word_le_nat_alt word_less_nat_alt unat_minus_size_t)
  then show ?thesis
    using size_t_bound [of len]
    by (simp add: word_le_nat_alt unat_plus_size_t; arith)
qed

text \<open>
  Claim C1, as the code has it. \<^verbatim>\<open>Retrieve\<close> has no bounds check and no failing path:
  for a buffer that satisfies the cursor invariant and a \<open>len\<close> greater than the number
  of readable bytes, the call returns normally with \<open>readPos_\<close> set to
  \<open>readPos_ + len\<close> in \<^verbatim>\<open>size_t\<close> arithmetic and nothing else changed. The new read cursor
  is not between the old read cursor and the write cursor: it is past the write cursor,
  or it has wrapped around.
\<close>

theorem Retrieve_unchecked:
  assumes "buffer_inv b" and "ReadableBytes b < len"
  shows "Retrieve len b = b\<lparr>readPos_m := readPos_m b + len\<rparr> \<and>
         \<not> (readPos_m b \<le> readPos_m (Retrieve len b) \<and>
            readPos_m (Retrieve len b) \<le> writePos_m (Retrieve len b))"
  using Retrieve_past_write [of b len] assms
  by (simp add: Retrieve_def buffer_inv_def)

theorem Retrieve_unchecked_witness:
  "buffer_inv \<lparr>buffer_m = ''hello'', readPos_m = 0, writePos_m = 5\<rparr> \<and>
   ReadableBytes \<lparr>buffer_m = ''hello'', readPos_m = 0, writePos_m = 5\<rparr> < 6 \<and>
   Retrieve 6 \<lparr>buffer_m = ''hello'', readPos_m = 0, writePos_m = 5\<rparr> =
     \<lparr>buffer_m = ''hello'', readPos_m = 6, writePos_m = 5\<rparr>"
  using Retrieve_unchecked [of "\<lparr>buffer_m = ''hello'', readPos_m = 0, writePos_m = 5\<rparr>" 6]
  by (simp add: buffer_inv_def ReadableBytes_def max_size_def)

text \<open>
  Claim C1 as stated fails: with three readable bytes, \<^verbatim>\<open>Retrieve(4)\<close> is not rejected; it
  moves the read cursor to 6, past the write cursor at 5, and the invariant is lost.
\<close>

theorem Retrieve_beyond_readable_counterexample:
  "buffer_inv \<lparr>buffer_m = ''abcdefgh'', readPos_m = 2, writePos_m = 5\<rparr> \<and>
   unat (ReadableBytes \<lparr>buffer_m = ''abcdefgh'', readPos_m = 2, writePos_m = 5\<rparr>) = 3 \<and>
   Retrieve 4 \<lparr>buffer_m = ''abcdefgh'', readPos_m = 2, writePos_m = 5\<rparr> =
     \<lparr>buffer_m = ''abcdefgh'', readPos_m = 6, writePos_m = 5\<rparr> \<and>
   \<not> buffer_inv (Retrieve 4 \<lparr>buffer_m = ''abcdefgh'', readPos_m = 2, writePos_m = 5\<rparr>)"
  by (simp add: buffer_inv_def ReadableBytes_def Retrieve_def max_size_def)

section \<open>A failing system call\<close>

text \<open>
  Claim C6. When \<^verbatim>\<open>readv\<close> in \<^verbatim>\<open>ReadFd\<close> or \<^verbatim>\<open>write\<close> in \<^verbatim>\<open>WriteFd\<close> fails, the call
  stores the \<^verbatim>\<open>errno\<close> through \<^verbatim>\<open>Errno\<close>, returns the negative result, sends nothing,
  and leaves the cursors and the contents of the buffer as they were, in every buffer
  state.
\<close>

theorem syscall_failure_leaves_buffer:
  "ReadFd (ReadError e) b = Inr (- 1, Some e, b) \<and>
   WriteFd (WriteError e) b = Inr (- 1, Some e, [], b)"
  by (simp add: ReadFd_def WriteFd_def)

section \<open>Making room\<close>

text \<open>
  Claim C3 says that for every buffer state and every \<open>len\<close> greater than the writable
  space, \<^verbatim>\<open>MakeSpace_\<close> grows the storage to at least \<open>writePos_ + len + 1\<close> bytes when
  writable plus prependable space is less than \<open>len\<close>, with both cursors and every
  existing byte where they were, and compacts otherwise. The code computes
  \<^verbatim>\<open>writePos_ + len + 1\<close> in \<^verbatim>\<open>size_t\<close> without a guard. With \<open>writePos_ = 4\<close> in ten
  bytes of storage and \<open>len = 2^64 - 2\<close> the growing branch is taken, the sum wraps to
  3, \<^verbatim>\<open>resize\<close> cuts the storage down to three bytes, and the call returns: the storage
  has not grown to \<open>writePos_ + len + 1\<close> bytes, and it ends before the write cursor.
\<close>

theorem MakeSpace_m_wraps:
  "buffer_inv \<lparr>buffer_m = ''0123456789'', readPos_m = 0, writePos_m = 4\<rparr> \<and>
   WritableBytes \<lparr>buffer_m = ''0123456789'', readPos_m = 0, writePos_m = 4\<rparr> <
     18446744073709551614 \<and>
   WritableBytes \<lparr>buffer_m = ''0123456789'', readPos_m = 0, writePos_m = 4\<rparr> +
     PrependableBytes \<lparr>buffer_m = ''0123456789'', readPos_m = 0, writePos_m = 4\<rparr> <
     18446744073709551614 \<and>
   MakeSpace_m 18446744073709551614 \<lparr>buffer_m = ''0123456789'', readPos_m = 0, writePos_m = 4\<rparr> =
     Inr \<lparr>buffer_m = ''012'', readPos_m = 0, writePos_m = 4\<rparr> \<and>
   length ''012'' < unat (4 :: size_t) + unat (18446744073709551614 :: size_t) + 1"
  by (simp add: buffer_inv_def MakeSpace_m_def WritableBytes_def PrependableBytes_def
      vector_size_def resize_def max_size_def)

text \<open>
  Everywhere else the growing branch and the compacting branch do what is specified.
  For a buffer that satisfies the invariant and a \<open>len\<close> greater than the writable
  space: if writable plus prependable space is less than \<open>len\<close> and
  \<open>writePos_ + len + 1\<close> is at most the maximal vector size, \<^verbatim>\<open>MakeSpace_\<close> resizes the
  storage to exactly \<open>writePos_ + len + 1\<close> bytes, with both cursors and every existing
  byte where they were; if writable plus prependable space suffices, it copies the
  readable bytes down to offset 0, sets \<open>readPos_ = 0\<close> and \<open>writePos_\<close> to the
  readable length, keeps the size of the storage, and the readable byte sequence is the
  same afterwards.
\<close>

theorem MakeSpace_m_grows_or_compacts:
  assumes "buffer_inv b" and "WritableBytes b < len"
  shows "(WritableBytes b + PrependableBytes b < len \<and>
            unat (writePos_m b) + unat len + 1 \<le> max_size \<longrightarrow>
          (\<exists>b'. MakeSpace_m len b = Inr b' \<and>
             length (buffer_m b') = unat (writePos_m b) + unat len + 1 \<and>
             readPos_m b' = readPos_m b \<and> writePos_m b' = writePos_m b \<and>
             take (length (buffer_m b)) (buffer_m b') = buffer_m b)) \<and>
         (\<not> WritableBytes b + PrependableBytes b < len \<longrightarrow>
          (\<exists>b'. MakeSpace_m len b = Inr b' \<and>
             readPos_m b' = 0 \<and> writePos_m b' = ReadableBytes b \<and>
             length (buffer_m b') = length (buffer_m b) \<and>
             take (unat (ReadableBytes b)) (buffer_m b') = content b \<and>
             content b' = content b))"
proof (intro conjI impI)
  assume a: "WritableBytes b + PrependableBytes b < len \<and>
             unat (writePos_m b) + unat len + 1 \<le> max_size"
  then have less: "length (buffer_m b) < unat (writePos_m b) + unat len + 1"
    using MakeSpace_grow(2) [OF assms(1)] by simp
  have "MakeSpace_m len b = Inr (grown len b)"
    using MakeSpace_grow(1) [OF assms(1)] a by (simp add: grown_def)
  moreover have "length (buffer_m (grown len b)) = unat (writePos_m b) + unat len + 1"
    using less by (simp add: grown_def)
  moreover have "readPos_m (grown len b) = readPos_m b"
    and "writePos_m (grown len b) = writePos_m b"
    and "take (length (buffer_m b)) (buffer_m (grown len b)) = buffer_m b"
    by (simp_all add: grown_def)
  ultimately show "\<exists>b'. MakeSpace_m len b = Inr b' \<and>
             length (buffer_m b') = unat (writePos_m b) + unat len + 1 \<and>
             readPos_m b' = readPos_m b \<and> writePos_m b' = writePos_m b \<and>
             take (length (buffer_m b)) (buffer_m b') = buffer_m b"
    by simp
next
  assume a: "\<not> WritableBytes b + PrependableBytes b < len"
  have "MakeSpace_m len b = Inr (compacted b)"
    using MakeSpace_compact [OF assms(1) a] by (simp add: compacted_def)
  moreover have "readPos_m (compacted b) = 0"
    and "writePos_m (compacted b) = ReadableBytes b"
    by (simp_all add: compacted_def)
  moreover have "take (unat (ReadableBytes b)) (buffer_m (compacted b)) = content b"
    using length_content [OF assms(1)] by (simp add: compacted_def)
  ultimately show "\<exists>b'. MakeSpace_m len b = Inr b' \<and>
             readPos_m b' = 0 \<and> writePos_m b' = ReadableBytes b \<and>
             length (buffer_m b') = length (buffer_m b) \<and>
             take (unat (ReadableBytes b)) (buffer_m b') = content b \<and>
             content b' = content b"
    using compacted_props(4,5) [OF assms(1)] by simp
qed

theorem MakeSpace_m_grows_or_compacts_witness:
  "buffer_inv (hello_buffer 0) \<and> WritableBytes (hello_buffer 0) < 10 \<and>
   WritableBytes (hello_buffer 0) + PrependableBytes (hello_buffer 0) < 10 \<and>
   unat (writePos_m (hello_buffer 0)) + unat (10 :: size_t) + 1 \<le> max_size \<and>
   (\<exists>b'. MakeSpace_m 10 (hello_buffer 0) = Inr b' \<and>
      length (buffer_m b') = unat (writePos_m (hello_buffer 0)) + unat (10 :: size_t) + 1 \<and>
      readPos_m b' = readPos_m (hello_buffer 0) \<and> writePos_m b' = writePos_m (hello_buffer 0) \<and>
      take (length (buffer_m (hello_buffer 0))) (buffer_m b') = buffer_m (hello_buffer 0)) \<and>
   buffer_inv (hello_buffer 3) \<and> WritableBytes (hello_buffer 3) < 7 \<and>
   \<not> WritableBytes (hello_buffer 3) + PrependableBytes (hello_buffer 3) < 7 \<and>
   (\<exists>b'. MakeSpace_m 7 (hello_buffer 3) = Inr b' \<and>
      readPos_m b' = 0 \<and> writePos_m b' = ReadableBytes (hello_buffer 3) \<and>
      length (buffer_m b') = length (buffer_m (hello_buffer 3)) \<and>
      take (unat (ReadableBytes (hello_buffer 3))) (buffer_m b') = content (hello_buffer 3) \<and>
      content b' = content (hello_buffer 3))"
  using MakeSpace_m_grows_or_compacts [of "hello_buffer 0" 10]
    MakeSpace_m_grows_or_compacts [of "hello_buffer 3" 7]
  by (simp add: hello_buffer_def buffer_inv_def max_size_def WritableBytes_def PrependableBytes_def
      vector_size_def)


text \<open>
  Where \<open>writePos_ + len + 1\<close> does not wrap around \<open>2^64\<close>, the code does what is
  specified. For a buffer that satisfies the invariant: when \<^verbatim>\<open>EnsureWriteable(len)\<close>
  returns, the writable space is at least \<open>len\<close> and lies inside the storage, the
  readable length and the readable bytes are unchanged, and a call that found enough
  writable space has changed nothing. (By \<open>EnsureWriteable_returns\<close> the call does
  return whenever \<open>writePos_ + len + 1\<close> is at most the maximal vector size; by
  \<open>EnsureWriteable_Inl\<close> it otherwise throws \<^verbatim>\<open>length_error\<close>.)
\<close>

theorem EnsureWriteable_makes_room:
  assumes "buffer_inv b" and "unat (writePos_m b) + unat len + 1 < 2 ^ 64"
    and "EnsureWriteable len b = Inr b'"
  shows "len \<le> WritableBytes b' \<and> unat (writePos_m b') + unat len \<le> length (buffer_m b') \<and>
         ReadableBytes b' = ReadableBytes b \<and>
         content b' = content b \<and> readable b' = Inr (content b) \<and>
         (len \<le> WritableBytes b \<longrightarrow> b' = b)"
proof -
  note r = EnsureWriteable_Inr [OF assms]
  have "unat len \<le> length (buffer_m b') - unat (writePos_m b')"
    using r(2) by (simp add: word_le_nat_alt unat_WritableBytes [OF r(1)])
  then have "unat (writePos_m b') + unat len \<le> length (buffer_m b')"
    using buffer_inv_unat(2) [OF r(1)] by arith
  then show ?thesis
    using r readable_content [OF r(1)] by simp
qed

theorem EnsureWriteable_makes_room_witness:
  "buffer_inv (hello_buffer 0) \<and>
   unat (writePos_m (hello_buffer 0)) + unat (10 :: size_t) + 1 < 2 ^ 64 \<and>
   EnsureWriteable 10 (hello_buffer 0) =
     Inr \<lparr>buffer_m = ''hello-----'' @ replicate 6 (CHR 0x00), readPos_m = 0, writePos_m = 5\<rparr> \<and>
   10 \<le> WritableBytes
     \<lparr>buffer_m = ''hello-----'' @ replicate 6 (CHR 0x00), readPos_m = 0, writePos_m = 5\<rparr> \<and>
   content \<lparr>buffer_m = ''hello-----'' @ replicate 6 (CHR 0x00), readPos_m = 0, writePos_m = 5\<rparr> =
     content (hello_buffer 0) \<and>
   readable \<lparr>buffer_m = ''hello-----'' @ replicate 6 (CHR 0x00), readPos_m = 0, writePos_m = 5\<rparr> =
     Inr ''hello''"
proof -
  have inv: "buffer_inv (hello_buffer 0)"
    by (simp add: hello_buffer_def buffer_inv_def max_size_def)
  have nowrap: "unat (writePos_m (hello_buffer 0)) + unat (10 :: size_t) + 1 < 2 ^ 64"
    by (simp add: hello_buffer_def)
  have c: "content (hello_buffer 0) = ''hello''"
    by (simp add: content_def hello_buffer_def ReadableBytes_def)
  from EnsureWriteable_makes_room [OF inv nowrap EnsureWriteable_grow_example] inv nowrap
    EnsureWriteable_grow_example c
  show ?thesis by simp
qed

section \<open>Appending and reading back\<close>

text \<open>
  Claim C8. For a buffer that satisfies the invariant and every byte sequence \<open>B\<close> (of
  any length that an array can have, including 0): \<^verbatim>\<open>Append(B, length B)\<close> returns, and
  reading \<^verbatim>\<open>ReadableBytes()\<close> bytes from \<^verbatim>\<open>Peek()\<close> afterwards yields the previously
  readable bytes followed by exactly the bytes of \<open>B\<close>, in order. The only other
  outcome is \<^verbatim>\<open>std::length_error\<close> from the vector, and only when the storage would
  have to exceed the maximal vector size.
\<close>

theorem Append_round_trip:
  assumes "buffer_inv b" and "length B \<le> max_size"
  shows "(\<exists>b'. Append B (of_nat (length B)) b = Inr b' \<and> readable b' = Inr (content b @ B)) \<or>
         (Append B (of_nat (length B)) b = Inl LengthError \<and>
          max_size < unat (writePos_m b) + length B + 1)"
proof -
  have len: "unat (of_nat (length B) :: size_t) = length B"
    using assms(2) max_size_value by (simp add: unat_of_nat_size_t)
  have nowrap: "unat (writePos_m b) + unat (of_nat (length B) :: size_t) + 1 < 2 ^ 64"
    using assms(2) buffer_inv_unat(2,3) [OF assms(1)] max_size_value by (simp add: len)
  have str: "unat (of_nat (length B) :: size_t) \<le> length B"
    by (simp add: len)
  show ?thesis
  proof (cases "Append B (of_nat (length B)) b")
    case (Inl e)
    from Append_Inl [OF assms(1) str nowrap Inl] Inl show ?thesis
      by (simp add: len)
  next
    case (Inr b')
    from Append_Inr [OF assms(1) str nowrap Inr] Inr show ?thesis
      by (simp add: len readable_content)
  qed
qed

theorem Append_round_trip_witness:
  "buffer_inv (hello_buffer 3) \<and> length ''world!!'' \<le> max_size \<and>
   content (hello_buffer 3) = ''lo'' \<and>
   Append ''world!!'' (of_nat (length ''world!!'')) (hello_buffer 3) =
     Inr \<lparr>buffer_m = ''loworld!!-'', readPos_m = 0, writePos_m = 9\<rparr> \<and>
   readable \<lparr>buffer_m = ''loworld!!-'', readPos_m = 0, writePos_m = 9\<rparr> = Inr ''loworld!!''"
proof -
  have inv: "buffer_inv (hello_buffer 3)"
    by (simp add: hello_buffer_def buffer_inv_def max_size_def)
  have len: "length ''world!!'' \<le> max_size"
    by (simp add: max_size_def)
  have c: "content (hello_buffer 3) = ''lo''"
    by (simp add: content_def hello_buffer_def ReadableBytes_def)
  have a: "Append ''world!!'' (of_nat (length ''world!!'')) (hello_buffer 3) =
     Inr \<lparr>buffer_m = ''loworld!!-'', readPos_m = 0, writePos_m = 9\<rparr>"
    using Append_compact_example by simp
  from Append_round_trip [OF inv len] show ?thesis
    unfolding a c using inv len by simp
qed

section \<open>Reading from a descriptor\<close>

text \<open>
  Claim C2. Let \<open>data\<close> be the bytes that a successful \<^verbatim>\<open>readv\<close> delivers into the
  writable region and the scratch array, \<open>n\<close> their number. For a buffer that satisfies
  the invariant, \<^verbatim>\<open>ReadFd\<close> returns \<open>n\<close>, stores nothing through \<^verbatim>\<open>Errno\<close>, and
  afterwards the readable region holds the old readable bytes followed by all of
  \<open>data\<close>, in order. If \<open>n\<close> is at most the writable space before the call, only
  \<open>writePos_\<close> changes (by \<open>n\<close>) and the bytes that \<^verbatim>\<open>readv\<close> wrote at the old write
  cursor; otherwise the write cursor is first set to the size of the storage, the
  writable region being full, and the rest of \<open>data\<close> goes through \<^verbatim>\<open>Append\<close>. The
  only other outcome is the \<^verbatim>\<open>std::length_error\<close> of that \<^verbatim>\<open>Append\<close>, when the
  storage would have to exceed the maximal vector size.
\<close>

theorem ReadFd_appends_all:
  assumes "buffer_inv b"
    and "data = take (unat (WritableBytes b) + sizeof_buff) avail"
  shows "(\<exists>b'. ReadFd (Pending avail) b = Inr (int (length data), None, b') \<and>
            readable b' = Inr (content b @ data) \<and>
            (length data \<le> unat (WritableBytes b) \<longrightarrow>
               readPos_m b' = readPos_m b \<and>
               writePos_m b' = writePos_m b + of_nat (length data) \<and>
               length (buffer_m b') = length (buffer_m b) \<and>
               take (unat (writePos_m b)) (buffer_m b') =
                 take (unat (writePos_m b)) (buffer_m b) \<and>
               drop (unat (writePos_m b) + length data) (buffer_m b') =
                 drop (unat (writePos_m b) + length data) (buffer_m b)) \<and>
            (unat (WritableBytes b) < length data \<longrightarrow>
               (\<exists>b1. readPos_m b1 = readPos_m b \<and>
                  writePos_m b1 = vector_size (buffer_m b) \<and>
                  buffer_m b1 = take (unat (writePos_m b)) (buffer_m b) @
                                  take (unat (WritableBytes b)) data \<and>
                  Append (drop (unat (WritableBytes b)) data)
                    (of_nat (length data) - WritableBytes b) b1 = Inr b'))) \<or>
         (ReadFd (Pending avail) b = Inl LengthError \<and>
            unat (WritableBytes b) < length data \<and>
            max_size < length (buffer_m b) + (length data - unat (WritableBytes b)) + 1)"
proof (cases "length data \<le> unat (WritableBytes b)")
  case True
  note inv = buffer_inv_unat [OF assms(1)]
  have "0 < sizeof_buff" by (simp add: sizeof_buff_def)
  with True have av: "length avail \<le> unat (WritableBytes b)" and d: "data = avail"
    by (simp_all add: assms(2))
  have room: "unat (writePos_m b) + length data \<le> length (buffer_m b)"
    using True inv by (simp add: unat_WritableBytes [OF assms(1)])
  note p = written_props [OF assms(1) room]
  have "ReadFd (Pending avail) b = Inr (int (length data), None, written data b)"
    using ReadFd_fits [OF assms(1) av] by (simp add: d)
  moreover have "readable (written data b) = Inr (content b @ data)"
    using readable_content [OF p(1)] p(2) by simp
  moreover have "readPos_m (written data b) = readPos_m b"
    and "writePos_m (written data b) = writePos_m b + of_nat (length data)"
    and "take (unat (writePos_m b)) (buffer_m (written data b)) =
           take (unat (writePos_m b)) (buffer_m b)"
    and "drop (unat (writePos_m b) + length data) (buffer_m (written data b)) =
           drop (unat (writePos_m b) + length data) (buffer_m b)"
    using room by (simp_all add: written_def)
  ultimately show ?thesis
    using True p(4) by simp
next
  case False
  note inv = buffer_inv_unat [OF assms(1)]
  let ?w = "unat (WritableBytes b)"
  let ?b1 = "written (take ?w data) b"
  let ?len = "of_nat (length data) - WritableBytes b :: size_t"
  have w: "?w = length (buffer_m b) - unat (writePos_m b)"
    by (rule unat_WritableBytes [OF assms(1)])
  from False have more: "?w < length data" by simp
  then have av: "?w < length avail" by (simp add: assms(2))
  have l0: "length (take ?w data) = ?w"
    using more by simp
  have room: "unat (writePos_m b) + length (take ?w data) \<le> length (buffer_m b)"
    using inv w by (simp only: l0) simp
  note p = written_props [OF assms(1) room]
  have small: "length data < 18446744073709551616"
    using inv(3) w max_size_value by (simp add: assms(2) sizeof_buff_def)
  have ulen: "unat ?len = length data - ?w"
    using more by (simp add: unat_minus_size_t unat_of_nat_size_t [OF small])
  have short: "length data - ?w \<le> sizeof_buff"
    by (simp add: assms(2))
  have "unat (writePos_m ?b1) = unat (writePos_m b) + ?w"
    using p(3) l0 by simp
  then have wp1: "unat (writePos_m ?b1) = length (buffer_m b)"
    using inv w by simp
  have str: "unat ?len \<le> length (drop ?w data)"
    by (simp add: ulen)
  have nowrap: "unat (writePos_m ?b1) + unat ?len + 1 < 2 ^ 64"
    using short inv(3) max_size_value by (simp add: wp1 ulen sizeof_buff_def)
  have b1: "readPos_m ?b1 = readPos_m b" "writePos_m ?b1 = vector_size (buffer_m b)"
    "buffer_m ?b1 = take (unat (writePos_m b)) (buffer_m b) @ take ?w data"
    using writePos_plus_Writable [of b] inv w more
    by (simp_all add: written_def min_absorb2 vector_size_def)
  note rd = ReadFd_overflows [OF assms(1) av assms(2)]
  show ?thesis
  proof (cases "Append (drop ?w data) ?len ?b1")
    case (Inl e)
    from Append_Inl [OF p(1) str nowrap Inl] Inl rd more show ?thesis
      by (simp add: wp1 ulen)
  next
    case (Inr b')
    have "content b' = content b @ data"
      using Append_Inr(2) [OF p(1) str nowrap Inr] p(2)
      by (simp add: ulen)
    then have "readable b' = Inr (content b @ data)"
      using readable_content [OF Append_Inr(1) [OF p(1) str nowrap Inr]] by simp
    moreover have "ReadFd (Pending avail) b = Inr (int (length data), None, b')"
      using rd Inr by simp
    ultimately show ?thesis
      using more b1 Inr by auto
  qed
qed

theorem ReadFd_appends_all_witness:
  "buffer_inv (hello_buffer 0) \<and> content (hello_buffer 0) = ''hello'' \<and>
   ReadFd (Pending ''abc'') (hello_buffer 0) =
     Inr (3, None, \<lparr>buffer_m = ''helloabc--'', readPos_m = 0, writePos_m = 8\<rparr>) \<and>
   readable \<lparr>buffer_m = ''helloabc--'', readPos_m = 0, writePos_m = 8\<rparr> = Inr ''helloabc'' \<and>
   ReadFd (Pending ''0123456789'') (hello_buffer 0) =
     Inr (10, None,
       \<lparr>buffer_m = ''hello0123456789'' @ [CHR 0x00], readPos_m = 0, writePos_m = 15\<rparr>) \<and>
   readable \<lparr>buffer_m = ''hello0123456789'' @ [CHR 0x00], readPos_m = 0, writePos_m = 15\<rparr> =
     Inr ''hello0123456789''"
proof -
  have inv: "buffer_inv (hello_buffer 0)"
    by (simp add: hello_buffer_def buffer_inv_def max_size_def)
  have c: "content (hello_buffer 0) = ''hello''"
    by (simp add: content_def hello_buffer_def ReadableBytes_def)
  have w: "unat (WritableBytes (hello_buffer 0)) + sizeof_buff = 65540"
    by (simp add: hello_buffer_def WritableBytes_def vector_size_def sizeof_buff_def)
  have "readable \<lparr>buffer_m = ''helloabc--'', readPos_m = 0, writePos_m = 8\<rparr> = Inr ''helloabc''"
    using ReadFd_appends_all [OF inv refl, of "''abc''"]
    unfolding ReadFd_fits_example c w by simp
  moreover
  have "readable \<lparr>buffer_m = ''hello0123456789'' @ [CHR 0x00], readPos_m = 0, writePos_m = 15\<rparr> =
     Inr ''hello0123456789''"
    using ReadFd_appends_all [OF inv refl, of "''0123456789''"]
    unfolding ReadFd_overflow_example c w by simp
  ultimately show ?thesis
    using inv c ReadFd_fits_example ReadFd_overflow_example by simp
qed

text \<open>
  Claim C10. In every buffer state (the invariant is not needed), a \<^verbatim>\<open>ReadFd\<close> whose
  \<^verbatim>\<open>readv\<close> delivers no byte (end of stream) returns 0, stores nothing through
  \<^verbatim>\<open>Errno\<close>, and leaves the cursors, the size of the storage and every byte of it
  unchanged.
\<close>

theorem ReadFd_end_of_stream:
  assumes "take (unat (WritableBytes b) + sizeof_buff) avail = []"
  shows "ReadFd (Pending avail) b = Inr (0, None, b)"
proof -
  have "avail = []"
    using assms by (simp add: sizeof_buff_def)
  then show ?thesis
    by (simp add: ReadFd_def readv_def store_def BeginWrite_def)
qed

theorem ReadFd_end_of_stream_witness:
  "take (unat (WritableBytes (hello_buffer 2)) + sizeof_buff) [] = [] \<and>
   ReadFd (Pending []) (hello_buffer 2) = Inr (0, None, hello_buffer 2) \<and>
   ReadFd (Pending []) \<lparr>buffer_m = ''abc'', readPos_m = 7, writePos_m = 5\<rparr> =
     Inr (0, None, \<lparr>buffer_m = ''abc'', readPos_m = 7, writePos_m = 5\<rparr>)"
  using ReadFd_end_of_stream [of "hello_buffer 2" "[]"]
    ReadFd_end_of_stream [of "\<lparr>buffer_m = ''abc'', readPos_m = 7, writePos_m = 5\<rparr>" "[]"]
  by simp

text \<open>
  Claim C9, as the code has it. In every call of \<^verbatim>\<open>ReadFd\<close> the second destination of
  the scatter read is the local array \<^verbatim>\<open>char buff[65535]\<close>: it has exactly 65535 bytes,
  one less than 64 KiB, whatever the stack holds, and a call that returns has taken
  \<open>min (pending bytes) (writable bytes + 65535)\<close> bytes. The array is a transient local
  of the call: what the call returns does not depend on what the array held when the
  call began, and it is the same as when nothing of the array is kept but the bytes that
  \<^verbatim>\<open>readv\<close> placed there and \<^verbatim>\<open>Append\<close> copied into the storage.
\<close>

theorem ReadFd_scratch_array:
  "length (buff_array stack) = 65535 \<and>
   ReadFd_local stack fd b = ReadFd fd b \<and>
   ReadFd_local stack fd b = ReadFd_local stack' fd b \<and>
   (ReadFd (Pending avail) b = Inr (n, eo, b') \<longrightarrow>
      n = int (min (length avail) (unat (WritableBytes b) + 65535)))"
  using ReadFd_count [of avail b n eo b']
  by (simp add: length_buff_array ReadFd_local_eq) (simp add: sizeof_buff_def)

theorem ReadFd_scratch_array_witness:
  "length (buff_array char_of) = 65535 \<and>
   ReadFd_local char_of (Pending ''0123456789'') (hello_buffer 0) =
     Inr (10, None,
       \<lparr>buffer_m = ''hello0123456789'' @ [CHR 0x00], readPos_m = 0, writePos_m = 15\<rparr>) \<and>
   ReadFd (Pending ''0123456789'') (hello_buffer 0) =
     Inr (10, None,
       \<lparr>buffer_m = ''hello0123456789'' @ [CHR 0x00], readPos_m = 0, writePos_m = 15\<rparr>) \<and>
   (10 :: int) = int (min (length ''0123456789'') (unat (WritableBytes (hello_buffer 0)) + 65535))"
  using ReadFd_scratch_array [of char_of "Pending ''0123456789''" "hello_buffer 0" char_of
      "''0123456789''" 10 None
      "\<lparr>buffer_m = ''hello0123456789'' @ [CHR 0x00], readPos_m = 0, writePos_m = 15\<rparr>"]
  by (simp add: ReadFd_overflow_example)

text \<open>
  Claim C9 as stated (exactly 65536 bytes) fails: with no writable byte and 65536 bytes
  pending, \<^verbatim>\<open>ReadFd\<close> returns 65535, and the array does not have 65536 bytes.
\<close>

theorem ReadFd_scratch_not_64KiB_counterexample:
  "map_sum id fst
     (ReadFd (Pending (replicate 65536 (CHR ''a'')))
        \<lparr>buffer_m = [], readPos_m = 0, writePos_m = 0\<rparr>) = Inr 65535 \<and>
   length (buff_array char_of) \<noteq> 65536"
  using ReadFd_65536_pending by (auto simp: length_buff_array sizeof_buff_def)

section \<open>Writing to a descriptor\<close>

text \<open>
  Claim C7. For a buffer that satisfies the invariant, a \<^verbatim>\<open>WriteFd\<close> whose \<^verbatim>\<open>write\<close>
  takes \<open>k\<close> bytes, \<open>k\<close> at most the readable length, returns \<open>k\<close>, stores nothing
  through \<^verbatim>\<open>Errno\<close>, sends the first \<open>k\<close> readable bytes, and changes nothing but
  \<open>readPos_\<close>, which advances by exactly \<open>k\<close>. The remaining readable bytes are the
  old ones without the first \<open>k\<close>, and a second call on a descriptor that takes them
  all sends exactly these and leaves nothing readable.
\<close>

theorem WriteFd_partial_write:
  assumes "buffer_inv b" and "k \<le> unat (ReadableBytes b)"
  shows "WriteFd (Accepts k) b = Inr (int k, None, take k (content b), Retrieve (of_nat k) b) \<and>
         Retrieve (of_nat k) b = b\<lparr>readPos_m := readPos_m b + of_nat k\<rparr> \<and>
         unat (ReadableBytes (Retrieve (of_nat k) b)) = unat (ReadableBytes b) - k \<and>
         content (Retrieve (of_nat k) b) = drop k (content b) \<and>
         (\<exists>b''. WriteFd (Accepts (unat (ReadableBytes b) - k)) (Retrieve (of_nat k) b) =
                  Inr (int (unat (ReadableBytes b) - k), None, drop k (content b), b'') \<and>
                ReadableBytes b'' = 0 \<and> content b'' = [])"
proof -
  let ?b' = "Retrieve (of_nat k) b"
  let ?j = "unat (ReadableBytes b) - k"
  note p = Retrieve_props [OF assms]
  have j: "?j \<le> unat (ReadableBytes ?b')"
    by (simp add: p(2))
  note q = Retrieve_props [OF p(1) j]
  have "length (content ?b') = ?j"
    using length_content [OF p(1)] by (simp add: p(2))
  then have all: "take ?j (content ?b') = drop k (content b)"
    by (simp add: p(3))
  have "WriteFd (Accepts ?j) ?b' =
          Inr (int ?j, None, drop k (content b), Retrieve (of_nat ?j) ?b')"
    using WriteFd_Accepts [OF p(1) j] by (simp only: all)
  moreover have "ReadableBytes (Retrieve (of_nat ?j) ?b') = 0"
    using q(2) by (simp add: p(2) unat_eq_0)
  moreover have "content (Retrieve (of_nat ?j) ?b') = []"
    using length_content [OF q(1)] q(2) by (simp add: p(2))
  ultimately show ?thesis
    using WriteFd_Accepts [OF assms] p by (simp add: Retrieve_def)
qed

theorem WriteFd_partial_write_witness:
  "buffer_inv (hello_buffer 1) \<and> 2 \<le> unat (ReadableBytes (hello_buffer 1)) \<and>
   content (hello_buffer 1) = ''ello'' \<and>
   WriteFd (Accepts 2) (hello_buffer 1) = Inr (2, None, ''el'', hello_buffer 3) \<and>
   content (hello_buffer 3) = ''lo'' \<and>
   WriteFd (Accepts 2) (hello_buffer 3) = Inr (2, None, ''lo'', hello_buffer 5) \<and>
   ReadableBytes (hello_buffer 5) = 0"
proof -
  have inv: "buffer_inv (hello_buffer 1)"
    by (simp add: hello_buffer_def buffer_inv_def max_size_def)
  have k: "2 \<le> unat (ReadableBytes (hello_buffer 1))"
    by (simp add: hello_buffer_def ReadableBytes_def)
  have c: "content (hello_buffer 1) = ''ello''"
    by (simp add: content_def hello_buffer_def ReadableBytes_def)
  have r: "unat (ReadableBytes (hello_buffer 1)) - 2 = 2"
    by (simp add: hello_buffer_def ReadableBytes_def)
  have b': "Retrieve 2 (hello_buffer 1) = hello_buffer 3"
    "Retrieve 2 (hello_buffer 3) = hello_buffer 5"
    by (simp_all add: Retrieve_def hello_buffer_def)
  have w2: "WriteFd (Accepts 2) (hello_buffer 3) = Inr (2, None, ''lo'', hello_buffer 5)"
    by (simp add: WriteFd_def peek_bytes_def Peek_def hello_buffer_def ReadableBytes_def
        Retrieve_def)
  have c3: "content (hello_buffer 3) = ''lo''"
    by (simp add: content_def hello_buffer_def ReadableBytes_def)
  have e: "ReadableBytes (hello_buffer 5) = 0"
    by (simp add: hello_buffer_def ReadableBytes_def)
  from WriteFd_partial_write [OF inv k] show ?thesis
    unfolding c r using inv k b' w2 c3 e by simp
qed

section \<open>The cursor invariant after every operation\<close>

text \<open>
  Claim C4 says that \<open>0 \<le> readPos_ \<le> writePos_ \<le> size\<close>, the layout that the comment at
  the top of buffer.cpp draws, holds after every operation of the public interface
  whose stated precondition held before. \<^verbatim>\<open>EnsureWriteable\<close> has no stated
  precondition, and the unguarded sum of \<^verbatim>\<open>MakeSpace_\<close> breaks the invariant there: from
  a state that satisfies it, with \<open>writePos_ = 6\<close> in ten bytes of storage,
  \<^verbatim>\<open>EnsureWriteable(2^64 - 5)\<close> resizes the storage to two bytes, its assertion passes
  on the wrapped \<^verbatim>\<open>WritableBytes()\<close>, and the call returns with the write cursor beyond
  the end of the storage.
\<close>

theorem EnsureWriteable_breaks_invariant:
  "buffer_inv \<lparr>buffer_m = ''0123456789'', readPos_m = 2, writePos_m = 6\<rparr> \<and>
   EnsureWriteable 18446744073709551611
       \<lparr>buffer_m = ''0123456789'', readPos_m = 2, writePos_m = 6\<rparr> =
     Inr \<lparr>buffer_m = ''01'', readPos_m = 2, writePos_m = 6\<rparr> \<and>
   \<not> buffer_inv \<lparr>buffer_m = ''01'', readPos_m = 2, writePos_m = 6\<rparr>"
  by (simp add: buffer_inv_def EnsureWriteable_def MakeSpace_m_def WritableBytes_def
      PrependableBytes_def vector_size_def resize_def max_size_def)

text \<open>
  Apart from that overflow every operation keeps the invariant. Starting from a buffer
  that satisfies it, the invariant holds again after every operation that returns:
  \<^verbatim>\<open>HasWritten(len)\<close> with \<open>len\<close> at most the writable length; \<^verbatim>\<open>Retrieve(len)\<close> with
  \<open>len\<close> at most the readable length; \<^verbatim>\<open>RetrieveUntil(end)\<close> with \<open>end\<close> at most the
  readable length past \<^verbatim>\<open>Peek()\<close>; \<^verbatim>\<open>EnsureWriteable(len)\<close> where
  \<open>writePos_ + len + 1\<close> does not wrap around \<open>2^64\<close>; every \<^verbatim>\<open>Append\<close> with a source
  array that holds the bytes to copy (an array has at most \<open>max_size\<close> bytes);
  construction, \<^verbatim>\<open>RetrieveAll\<close>, \<^verbatim>\<open>RetrieveAllToStr\<close>, \<^verbatim>\<open>ReadFd\<close> and \<^verbatim>\<open>WriteFd\<close>
  always. The size queries and \<^verbatim>\<open>Peek\<close> are const member functions: they return a
  number and no new state.
\<close>

theorem cursor_invariant_preserved:
  assumes "buffer_inv b"
  shows "(\<forall>b'. Buffer initBuffSize = Inr b' \<longrightarrow> buffer_inv b') \<and>
         (\<forall>b'. unat (writePos_m b) + unat len_e + 1 < 2 ^ 64 \<and>
               EnsureWriteable len_e b = Inr b' \<longrightarrow> buffer_inv b') \<and>
         (len_h \<le> WritableBytes b \<longrightarrow> buffer_inv (HasWritten len_h b)) \<and>
         (len_r \<le> ReadableBytes b \<longrightarrow> buffer_inv (Retrieve len_r b)) \<and>
         (\<forall>b'. end_ptr - Peek b \<le> ReadableBytes b \<and> RetrieveUntil end_ptr b = Inr b' \<longrightarrow>
               buffer_inv b') \<and>
         buffer_inv (RetrieveAll b) \<and>
         RetrieveAllToStr b = Inr (content b, RetrieveAll b) \<and>
         (\<forall>b'. unat len_a \<le> length str \<and> length str \<le> max_size \<and>
               Append str len_a b = Inr b' \<longrightarrow> buffer_inv b') \<and>
         (\<forall>b'. length s \<le> max_size \<and> Append_string s b = Inr b' \<longrightarrow> buffer_inv b') \<and>
         (\<forall>b'. unat len_v \<le> length dat \<and> length dat \<le> max_size \<and>
               Append_void dat len_v b = Inr b' \<longrightarrow> buffer_inv b') \<and>
         (\<forall>b'. buffer_inv buff \<and> Append_Buffer buff b = Inr b' \<longrightarrow> buffer_inv b') \<and>
         (\<forall>n eo b'. ReadFd fd_r b = Inr (n, eo, b') \<longrightarrow> buffer_inv b') \<and>
         (\<forall>n eo sent b'. WriteFd fd_w b = Inr (n, eo, sent, b') \<longrightarrow> buffer_inv b')"
proof -
  have string: "buffer_inv b'" if "length s \<le> max_size" and "Append_string s b = Inr b'" for b'
  proof -
    have "unat (of_nat (length s) :: size_t) \<le> length s"
      using that(1) max_size_value by (simp add: unat_of_nat_size_t)
    from Append_inv [OF assms this that(1)] that(2) show ?thesis
      by (simp add: Append_string_def)
  qed
  show ?thesis
    using Buffer_inv [of initBuffSize] EnsureWriteable_Inr(1) [OF assms, of len_e]
      HasWritten_inv [OF assms, of len_h] Retrieve_inv [OF assms, of len_r]
      RetrieveUntil_inv [OF assms, of end_ptr] RetrieveAll_inv [OF assms]
      RetrieveAllToStr_eq [OF assms] Append_inv [OF assms, of len_a str] string
      Append_inv [OF assms, of len_v dat] Append_Buffer_inv [OF assms, of buff]
      ReadFd_inv [OF assms, of fd_r] WriteFd_inv [OF assms, of fd_w]
    by (simp add: Append_void_def)
qed

theorem cursor_invariant_preserved_witness:
  "buffer_inv (hello_buffer 0) \<and>
   Buffer 10 = Inr \<lparr>buffer_m = replicate 10 (CHR 0x00), readPos_m = 0, writePos_m = 0\<rparr> \<and>
   buffer_inv \<lparr>buffer_m = replicate 10 (CHR 0x00), readPos_m = 0, writePos_m = 0\<rparr> \<and>
   unat (writePos_m (hello_buffer 0)) + unat (10 :: size_t) + 1 < 2 ^ 64 \<and>
   EnsureWriteable 10 (hello_buffer 0) =
     Inr \<lparr>buffer_m = ''hello-----'' @ replicate 6 (CHR 0x00), readPos_m = 0, writePos_m = 5\<rparr> \<and>
   buffer_inv
     \<lparr>buffer_m = ''hello-----'' @ replicate 6 (CHR 0x00), readPos_m = 0, writePos_m = 5\<rparr> \<and>
   2 \<le> WritableBytes (hello_buffer 0) \<and> buffer_inv (HasWritten 2 (hello_buffer 0)) \<and>
   3 \<le> ReadableBytes (hello_buffer 0) \<and> buffer_inv (Retrieve 3 (hello_buffer 0)) \<and>
   buffer_inv (RetrieveAll (hello_buffer 0)) \<and>
   ReadFd (Pending ''0123456789'') (hello_buffer 0) =
     Inr (10, None,
       \<lparr>buffer_m = ''hello0123456789'' @ [CHR 0x00], readPos_m = 0, writePos_m = 15\<rparr>) \<and>
   buffer_inv \<lparr>buffer_m = ''hello0123456789'' @ [CHR 0x00], readPos_m = 0, writePos_m = 15\<rparr>"
proof -
  have inv: "buffer_inv (hello_buffer 0)"
    by (simp add: hello_buffer_def buffer_inv_def max_size_def)
  have pre: "unat (writePos_m (hello_buffer 0)) + unat (10 :: size_t) + 1 < 2 ^ 64"
    "2 \<le> WritableBytes (hello_buffer 0)" "3 \<le> ReadableBytes (hello_buffer 0)"
    by (simp_all add: hello_buffer_def WritableBytes_def ReadableBytes_def vector_size_def)
  from cursor_invariant_preserved [OF inv, where initBuffSize = 10 and len_e = 10
      and len_h = 2 and len_r = 3 and fd_r = "Pending ''0123456789''"]
  show ?thesis
    unfolding Buffer_example EnsureWriteable_grow_example ReadFd_overflow_example
    using inv pre by simp
qed

end
